theory Spec2Isabelle
  imports Main
begin

section \<open>The host object model\<close>

text \<open>
  The library is a thin layer over the reflective primitives of an ECMAScript host:
  property tables with attribute bits, prototype links, callable objects. The embedding
  keeps exactly that much of the host: values, a heap of objects and arrays, and the
  primitives the library calls (\<open>typeof\<close>, \<open>hasOwnProperty\<close>,
  \<open>getOwnPropertyNames\<close>, \<open>getOwnPropertyDescriptor\<close>, \<open>defineProperty\<close>,
  \<open>seal\<close>, \<open>freeze\<close>, \<open>instanceof\<close>). Numbers are integers. Exotic host objects
  other than arrays are not values of this model; proxies are added, for the one function
  that is specified on every value, in a section of their own. Running a function body written by the
  user (a getter reached by a property read, the original function behind a guard) is not
  part of the library: a read that would run a getter is reported as \<open>Unmodelled\<close>, and a
  guard that forwards is reported as the forwarded call.
\<close>

type_synonym addr = nat

datatype key = Str string | Sym nat

text \<open>
  A property descriptor object, as \<open>Object.getOwnPropertyDescriptor\<close> returns it, is a
  fresh record on every call; it is kept as a value (\<open>Dsc\<close>).
\<close>

datatype val = Undefined | Null | BoolV bool | NumV int | StrV string | SymV nat
  | Ref addr | Dsc desc
and desc =
    Data (dvalue: val) (writable: bool) (enumerable: bool) (configurable: bool)
  | Accessor (getter: val) (setter: val) (enumerable: bool) (configurable: bool)

datatype error = TypeError string | Unmodelled

text \<open>
  What a callable object does when called. \<open>Native n\<close> is a function of the user
  (number \<open>n\<close>); \<open>Bound f\<close> is \<open>f.bind(...)\<close>;
  \<open>Guard iface prop original\<close> is the closure that
  \<open>validateInterface\<close> returns; \<open>Decorator exceptFor\<close> is the closure that
  \<open>restrict(options)\<close> returns.
\<close>

datatype code = Native nat | Bound val | Guard val val val | Decorator val

record obj =
  props :: "(key \<times> desc) list"
  proto :: val
  extensible :: bool
  fcode :: "code option"

text \<open>
  \<open>props\<close> lists the own properties in the order in which the host reports them
  (names and symbols may interleave; the name and symbol listings filter it).
  An array is a cell of its own: its elements and whether it has been frozen.
\<close>

datatype cell = Obj obj | Arr "val list" bool

type_synonym heap = "cell list"

text \<open>The intrinsic objects of the realm sit at fixed addresses.\<close>

definition ObjectPrototype :: val where "ObjectPrototype = Ref 0"
definition FunctionPrototype :: val where "FunctionPrototype = Ref 1"
definition ArrayPrototype :: val where "ArrayPrototype = Ref 2"
definition StringPrototype :: val where "StringPrototype = Ref 3"
definition NumberPrototype :: val where "NumberPrototype = Ref 4"
definition BooleanPrototype :: val where "BooleanPrototype = Ref 5"
definition SymbolPrototype :: val where "SymbolPrototype = Ref 6"
definition GlobalObject :: val where "GlobalObject = Ref 7"

text \<open>\<open>Symbol.toStringTag\<close>, a well-known symbol.\<close>

definition toStringTag :: key where "toStringTag = Sym 0"

definition alloc :: "heap \<Rightarrow> cell \<Rightarrow> addr \<times> heap" where
  "alloc h c = (length h, h @ [c])"

subsection \<open>Decimal index names\<close>

definition digit :: "nat \<Rightarrow> char" where
  "digit n = ''0123456789'' ! (n mod 10)"

fun dec :: "nat \<Rightarrow> string" where
  "dec n = (if n < 10 then [digit n] else dec (n div 10) @ [digit n])"

declare dec.simps [simp del]

subsection \<open>Every object as a property table\<close>

definition key_val :: "key \<Rightarrow> val" where
  "key_val k = (case k of Str s \<Rightarrow> StrV s | Sym n \<Rightarrow> SymV n)"

definition arr_view :: "val list \<Rightarrow> bool \<Rightarrow> obj" where
  "arr_view xs frozen =
     \<lparr> props = map (\<lambda>i. (Str (dec i), Data (xs ! i) (\<not> frozen) True (\<not> frozen)))
                 [0 ..< length xs]
               @ [(Str ''length'', Data (NumV (int (length xs))) (\<not> frozen) False False)],
       proto = ArrayPrototype, extensible = \<not> frozen, fcode = None \<rparr>"

definition dsc_view :: "desc \<Rightarrow> obj" where
  "dsc_view d =
     \<lparr> props = (case d of
          Data v w e c \<Rightarrow>
            [(Str ''value'', Data v True True True),
             (Str ''writable'', Data (BoolV w) True True True),
             (Str ''enumerable'', Data (BoolV e) True True True),
             (Str ''configurable'', Data (BoolV c) True True True)]
        | Accessor g s e c \<Rightarrow>
            [(Str ''get'', Data g True True True),
             (Str ''set'', Data s True True True),
             (Str ''enumerable'', Data (BoolV e) True True True),
             (Str ''configurable'', Data (BoolV c) True True True)]),
       proto = ObjectPrototype, extensible = True, fcode = None \<rparr>"

text \<open>The wrapper object that \<open>Object(s)\<close> makes of a string.\<close>

definition str_view :: "string \<Rightarrow> obj" where
  "str_view s =
     \<lparr> props = map (\<lambda>i. (Str (dec i), Data (StrV [s ! i]) False True False))
                 [0 ..< length s]
               @ [(Str ''length'', Data (NumV (int (length s))) False False False)],
       proto = StringPrototype, extensible = True, fcode = None \<rparr>"

definition empty_obj :: "val \<Rightarrow> obj" where
  "empty_obj p = \<lparr> props = [], proto = p, extensible = True, fcode = None \<rparr>"

text \<open>
  \<open>view h v\<close> is the object behind a value of type object: a heap object, an array, a
  descriptor record. A primitive has none.
\<close>

definition view :: "heap \<Rightarrow> val \<Rightarrow> obj option" where
  "view h v =
     (case v of
        Ref a \<Rightarrow>
          (if a < length h
           then Some (case h ! a of Obj ob \<Rightarrow> ob | Arr xs frozen \<Rightarrow> arr_view xs frozen)
           else None)
      | Dsc d \<Rightarrow> Some (dsc_view d)
      | _ \<Rightarrow> None)"

text \<open>
  \<open>ToObject\<close>, as a table: a primitive is read through its wrapper, \<open>undefined\<close>
  and \<open>null\<close> have none.
\<close>

definition to_object :: "heap \<Rightarrow> val \<Rightarrow> obj option" where
  "to_object h v =
     (case v of
        Undefined \<Rightarrow> None
      | Null \<Rightarrow> None
      | StrV s \<Rightarrow> Some (str_view s)
      | BoolV b \<Rightarrow> Some (empty_obj BooleanPrototype)
      | NumV n \<Rightarrow> Some (empty_obj NumberPrototype)
      | SymV n \<Rightarrow> Some (empty_obj SymbolPrototype)
      | _ \<Rightarrow> view h v)"

definition typeof :: "heap \<Rightarrow> val \<Rightarrow> string" where
  "typeof h v =
     (case v of
        Undefined \<Rightarrow> ''undefined''
      | Null \<Rightarrow> ''object''
      | BoolV b \<Rightarrow> ''boolean''
      | NumV n \<Rightarrow> ''number''
      | StrV s \<Rightarrow> ''string''
      | SymV n \<Rightarrow> ''symbol''
      | _ \<Rightarrow>
          (case view h v of
             Some ob \<Rightarrow> (if fcode ob = None then ''object'' else ''function'')
           | None \<Rightarrow> ''object''))"

definition truthy :: "val \<Rightarrow> bool" where
  "truthy v =
     (case v of
        Undefined \<Rightarrow> False
      | Null \<Rightarrow> False
      | BoolV b \<Rightarrow> b
      | NumV n \<Rightarrow> n \<noteq> 0
      | StrV s \<Rightarrow> s \<noteq> []
      | _ \<Rightarrow> True)"

subsection \<open>Results with effects\<close>

text \<open>
  A library call returns a value or throws, and either way leaves a heap behind: what it
  wrote before a throw stays written.
\<close>

type_synonym 'a res = "(error + 'a) \<times> heap"

definition andThen :: "'a res \<Rightarrow> ('a \<Rightarrow> heap \<Rightarrow> 'b res) \<Rightarrow> 'b res" where
  "andThen m f = (case m of (Inl e, h) \<Rightarrow> (Inl e, h) | (Inr x, h) \<Rightarrow> f x h)"

definition lift :: "heap \<Rightarrow> error + 'a \<Rightarrow> 'a res" where
  "lift h r = (r, h)"

definition upd :: "heap \<Rightarrow> error + heap \<Rightarrow> unit res" where
  "upd h r = (case r of Inl e \<Rightarrow> (Inl e, h) | Inr h' \<Rightarrow> (Inr (), h'))"

subsection \<open>Reading properties\<close>

definition is_name :: "key \<Rightarrow> bool" where
  "is_name k = (case k of Str s \<Rightarrow> True | Sym n \<Rightarrow> False)"

definition getOwnPropertyNames :: "heap \<Rightarrow> val \<Rightarrow> key list" where
  "getOwnPropertyNames h v =
     (case view h v of None \<Rightarrow> [] | Some ob \<Rightarrow> filter is_name (map fst (props ob)))"

definition getOwnPropertySymbols :: "heap \<Rightarrow> val \<Rightarrow> key list" where
  "getOwnPropertySymbols h v =
     (case view h v of
        None \<Rightarrow> []
      | Some ob \<Rightarrow> filter (\<lambda>k. \<not> is_name k) (map fst (props ob)))"

definition getOwnPropertyDescriptor :: "heap \<Rightarrow> val \<Rightarrow> key \<Rightarrow> val" where
  "getOwnPropertyDescriptor h v k =
     (case view h v of
        None \<Rightarrow> Undefined
      | Some ob \<Rightarrow> (case map_of (props ob) k of None \<Rightarrow> Undefined | Some d \<Rightarrow> Dsc d))"

text \<open>
  The property read \<open>v.k\<close>: the own table, then the prototype chain. The chain of a
  heap of \<open>n\<close> cells has at most \<open>n\<close> links, so the fuel never runs out on a chain
  without a cycle, and the host builds no other. A getter on the way is the user's code.
\<close>

fun get_chain :: "heap \<Rightarrow> nat \<Rightarrow> obj \<Rightarrow> key \<Rightarrow> error + val" where
  "get_chain h 0 ob k = Inl Unmodelled"
| "get_chain h (Suc n) ob k =
     (case map_of (props ob) k of
        Some (Data v w e c) \<Rightarrow> Inr v
      | Some (Accessor g s e c) \<Rightarrow> (if g = Undefined then Inr Undefined else Inl Unmodelled)
      | None \<Rightarrow>
          (if proto ob = Null then Inr Undefined
           else (case view h (proto ob) of
                   None \<Rightarrow> Inl Unmodelled
                 | Some ob' \<Rightarrow> get_chain h n ob' k)))"

definition get :: "heap \<Rightarrow> val \<Rightarrow> key \<Rightarrow> error + val" where
  "get h v k =
     (case to_object h v of
        None \<Rightarrow>
          (if v = Undefined \<or> v = Null
           then Inl (TypeError ''Cannot read properties of undefined or null'')
           else Inl Unmodelled)
      | Some ob \<Rightarrow> get_chain h (Suc (Suc (length h))) ob k)"

text \<open>
  The assignment \<open>v.k = x\<close> in non-strict code, for an own data property of a heap
  object: stored when the property is writable, dropped without an error otherwise.
\<close>

definition put :: "heap \<Rightarrow> val \<Rightarrow> key \<Rightarrow> val \<Rightarrow> error + heap" where
  "put h v k x =
     (case v of
        Ref a \<Rightarrow>
          (if a < length h
           then (case h ! a of
                   Obj ob \<Rightarrow>
                     (case map_of (props ob) k of
                        Some (Data y w e c) \<Rightarrow>
                          Inr (if w
                               then h[a := Obj (ob\<lparr>props :=
                                      map (\<lambda>(k', d). if k' = k then (k', Data x w e c)
                                                      else (k', d)) (props ob)\<rparr>)]
                               else h)
                      | _ \<Rightarrow> Inl Unmodelled)
                 | Arr xs frozen \<Rightarrow> Inl Unmodelled)
           else Inl Unmodelled)
      | _ \<Rightarrow> Inl Unmodelled)"

subsection \<open>Arrays\<close>

text \<open>
  \<open>a.length = n\<close> and \<open>a[i] = x\<close> in non-strict code: a frozen array drops both
  without an error.
\<close>

definition set_length :: "heap \<Rightarrow> val \<Rightarrow> nat \<Rightarrow> error + heap" where
  "set_length h v n =
     (case v of
        Ref a \<Rightarrow>
          (if a < length h
           then (case h ! a of
                   Arr xs frozen \<Rightarrow>
                     Inr (if frozen then h
                          else h[a := Arr (take n xs @ replicate (n - length xs) Undefined)
                                          frozen])
                 | Obj ob \<Rightarrow> Inl Unmodelled)
           else Inl Unmodelled)
      | _ \<Rightarrow> Inl Unmodelled)"

definition store :: "heap \<Rightarrow> val \<Rightarrow> nat \<Rightarrow> val \<Rightarrow> error + heap" where
  "store h v i x =
     (case v of
        Ref a \<Rightarrow>
          (if a < length h
           then (case h ! a of
                   Arr xs frozen \<Rightarrow>
                     Inr (if frozen then h
                          else h[a := Arr ((xs @ replicate (Suc i - length xs) Undefined)
                                           [i := x]) frozen])
                 | Obj ob \<Rightarrow> Inl Unmodelled)
           else Inl Unmodelled)
      | _ \<Rightarrow> Inl Unmodelled)"

definition frozen_desc :: "desc \<Rightarrow> bool" where
  "frozen_desc d =
     (case d of Data v w e c \<Rightarrow> \<not> w \<and> \<not> c | Accessor g s e c \<Rightarrow> \<not> c)"

definition isFrozen :: "heap \<Rightarrow> val \<Rightarrow> bool" where
  "isFrozen h v =
     (case view h v of
        None \<Rightarrow> True
      | Some ob \<Rightarrow> \<not> extensible ob \<and> list_all (\<lambda>p. frozen_desc (snd p)) (props ob))"

definition freeze_desc :: "desc \<Rightarrow> desc" where
  "freeze_desc d =
     (case d of Data v w e c \<Rightarrow> Data v False e False
              | Accessor g s e c \<Rightarrow> Accessor g s e False)"

definition freeze :: "heap \<Rightarrow> val \<Rightarrow> heap" where
  "freeze h v =
     (case v of
        Ref a \<Rightarrow>
          (if a < length h
           then (case h ! a of
                   Arr xs frozen \<Rightarrow> h[a := Arr xs True]
                 | Obj ob \<Rightarrow>
                     h[a := Obj (ob\<lparr>props := map (\<lambda>(k, d). (k, freeze_desc d)) (props ob),
                                   extensible := False\<rparr>)])
           else h)
      | _ \<Rightarrow> h)"

text \<open>\<open>Object(o)\<close>: an object is itself; anything else gets a fresh wrapper.\<close>

definition Object_of :: "heap \<Rightarrow> val \<Rightarrow> val \<times> heap" where
  "Object_of h v =
     (case view h v of
        Some ob \<Rightarrow> (v, h)
      | None \<Rightarrow>
          (let (a, h') = alloc h (Obj (case to_object h v of
                                         Some ob \<Rightarrow> ob
                                       | None \<Rightarrow> empty_obj ObjectPrototype))
           in (Ref a, h')))"

subsection \<open>Defining properties\<close>

text \<open>
  The argument of \<open>Object.defineProperty\<close> names only the attributes it wants to set.
\<close>

record pdesc =
  pvalue :: "val option"
  pwritable :: "bool option"
  pget :: "val option"
  pset :: "val option"
  penumerable :: "bool option"
  pconfigurable :: "bool option"

definition full :: "desc \<Rightarrow> pdesc" where
  "full d =
     (case d of
        Data v w e c \<Rightarrow>
          \<lparr> pvalue = Some v, pwritable = Some w, pget = None, pset = None,
            penumerable = Some e, pconfigurable = Some c \<rparr>
      | Accessor g s e c \<Rightarrow>
          \<lparr> pvalue = None, pwritable = None, pget = Some g, pset = Some s,
            penumerable = Some e, pconfigurable = Some c \<rparr>)"

definition only_value :: "val \<Rightarrow> pdesc" where
  "only_value v =
     \<lparr> pvalue = Some v, pwritable = None, pget = None, pset = None,
       penumerable = None, pconfigurable = None \<rparr>"

definition is_accessor_pd :: "pdesc \<Rightarrow> bool" where
  "is_accessor_pd D = (\<not> (pget D = None \<and> pset D = None))"

definition is_data_pd :: "pdesc \<Rightarrow> bool" where
  "is_data_pd D = (\<not> (pvalue D = None \<and> pwritable D = None))"

definition is_accessor :: "desc \<Rightarrow> bool" where
  "is_accessor d = (case d of Data v w e c \<Rightarrow> False | Accessor g s e c \<Rightarrow> True)"

definition dflt :: "'a \<Rightarrow> 'a option \<Rightarrow> 'a" where
  "dflt x y = (case y of None \<Rightarrow> x | Some z \<Rightarrow> z)"

definition asks :: "'a option \<Rightarrow> 'a \<Rightarrow> bool" where
  "asks y x = (case y of None \<Rightarrow> False | Some z \<Rightarrow> z \<noteq> x)"

text \<open>
  ValidateAndApplyPropertyDescriptor of the language standard: what a non-configurable
  property refuses, and what the property is afterwards. \<open>None\<close> is the refusal.
\<close>

definition refused :: "pdesc \<Rightarrow> desc \<Rightarrow> bool" where
  "refused D c =
     (if configurable c then False
      else if pconfigurable D = Some True then True
      else if asks (penumerable D) (enumerable c) then True
      else if (is_accessor_pd D \<or> is_data_pd D) \<and> is_accessor_pd D \<noteq> is_accessor c
           then True
      else (case c of
              Accessor g s e cf \<Rightarrow> asks (pget D) g \<or> asks (pset D) s
            | Data v w e cf \<Rightarrow>
                (if w then False else pwritable D = Some True \<or> asks (pvalue D) v)))"

definition applied :: "pdesc \<Rightarrow> desc \<Rightarrow> desc" where
  "applied D c =
     (let e = dflt (enumerable c) (penumerable D);
          cf = dflt (configurable c) (pconfigurable D)
      in (case c of
            Data v w e' cf' \<Rightarrow>
              (if is_accessor_pd D
               then Accessor (dflt Undefined (pget D)) (dflt Undefined (pset D)) e cf
               else Data (dflt v (pvalue D)) (dflt w (pwritable D)) e cf)
          | Accessor g s e' cf' \<Rightarrow>
              (if is_data_pd D
               then Data (dflt Undefined (pvalue D)) (dflt False (pwritable D)) e cf
               else Accessor (dflt g (pget D)) (dflt s (pset D)) e cf)))"

definition created :: "pdesc \<Rightarrow> desc" where
  "created D =
     (if is_accessor_pd D
      then Accessor (dflt Undefined (pget D)) (dflt Undefined (pset D))
                    (dflt False (penumerable D)) (dflt False (pconfigurable D))
      else Data (dflt Undefined (pvalue D)) (dflt False (pwritable D))
                (dflt False (penumerable D)) (dflt False (pconfigurable D)))"

definition validate_apply :: "bool \<Rightarrow> pdesc \<Rightarrow> desc option \<Rightarrow> desc option" where
  "validate_apply ext D cur =
     (case cur of
        None \<Rightarrow> (if ext then Some (created D) else None)
      | Some c \<Rightarrow> (if refused D c then None else Some (applied D c)))"

fun set_prop :: "key \<Rightarrow> desc \<Rightarrow> (key \<times> desc) list \<Rightarrow> (key \<times> desc) list" where
  "set_prop k d [] = [(k, d)]"
| "set_prop k d (p # ps) = (if fst p = k then (k, d) # ps else p # set_prop k d ps)"

text \<open>
  ToPropertyDescriptor and DefinePropertyOrThrow on an ordinary object: a descriptor that
  names both accessor and data attributes is a TypeError. An array or a descriptor record
  as the target is outside the embedding.
\<close>

definition define_own :: "heap \<Rightarrow> val \<Rightarrow> key \<Rightarrow> pdesc \<Rightarrow> error + heap" where
  "define_own h v k D =
     (if is_accessor_pd D \<and> is_data_pd D
      then Inl (TypeError ''Invalid property descriptor'')
      else (case v of
              Ref a \<Rightarrow>
                (if a < length h
                 then (case h ! a of
                         Obj ob \<Rightarrow>
                           (case validate_apply (extensible ob) D (map_of (props ob) k) of
                              None \<Rightarrow> Inl (TypeError ''Cannot define property'')
                            | Some d \<Rightarrow>
                                Inr (h[a := Obj (ob\<lparr>props := set_prop k d (props ob)\<rparr>)]))
                       | Arr xs frozen \<Rightarrow> Inl Unmodelled)
                 else Inl Unmodelled)
            | _ \<Rightarrow> Inl Unmodelled))"

definition defineProperty :: "heap \<Rightarrow> val \<Rightarrow> key \<Rightarrow> pdesc \<Rightarrow> val res" where
  "defineProperty h v k D =
     (if view h v = None
      then (Inl (TypeError ''Object.defineProperty called on non-object''), h)
      else andThen (upd h (define_own h v k D)) (\<lambda>u h. (Inr v, h)))"

fun define_all :: "heap \<Rightarrow> val \<Rightarrow> (key \<times> desc) list \<Rightarrow> unit res" where
  "define_all h v [] = (Inr (), h)"
| "define_all h v (p # ps) =
     andThen (upd h (define_own h v (fst p) (full (snd p)))) (\<lambda>u h. define_all h v ps)"

text \<open>
  \<open>Object.defineProperties(O, Props)\<close>, with \<open>Props\<close> as the list of its own
  enumerable entries.
\<close>

definition defineProperties :: "heap \<Rightarrow> val \<Rightarrow> (key \<times> desc) list \<Rightarrow> val res" where
  "defineProperties h v ds =
     (if view h v = None
      then (Inl (TypeError ''Object.defineProperties called on non-object''), h)
      else andThen (define_all h v ds) (\<lambda>u h. (Inr v, h)))"


text \<open>\<open>Object.seal\<close>: a primitive is returned as it is.\<close>

definition seal_desc :: "desc \<Rightarrow> desc" where
  "seal_desc d =
     (case d of Data v w e c \<Rightarrow> Data v w e False
              | Accessor g s e c \<Rightarrow> Accessor g s e False)"

definition seal_obj :: "obj \<Rightarrow> obj" where
  "seal_obj ob =
     ob\<lparr>props := map (\<lambda>p. (fst p, seal_desc (snd p))) (props ob), extensible := False\<rparr>"

definition seal :: "heap \<Rightarrow> val \<Rightarrow> error + heap" where
  "seal h v =
     (case v of
        Ref a \<Rightarrow>
          (if a < length h
           then (case h ! a of
                   Obj ob \<Rightarrow> Inr (h[a := Obj (seal_obj ob)])
                 | Arr xs frozen \<Rightarrow> Inl Unmodelled)
           else Inl Unmodelled)
      | Dsc d \<Rightarrow> Inl Unmodelled
      | _ \<Rightarrow> Inr h)"

subsection \<open>Functions\<close>

text \<open>
  How the host makes a function object. A class and a \<open>function\<close> expression get an own
  \<open>prototype\<close> property (and the prototype object, with its \<open>constructor\<close>); an arrow
  function, a method and a bound function do not.
\<close>

datatype fkind = ClassDecl | FunctionExpr | ArrowFn | MethodFn | BoundFn

definition new_function :: "heap \<Rightarrow> fkind \<Rightarrow> string \<Rightarrow> nat \<Rightarrow> code \<Rightarrow> val \<times> heap" where
  "new_function h kind name n c =
     (let f = length h;
          own = [(Str ''length'', Data (NumV (int n)) False False True),
                 (Str ''name'', Data (StrV name) False False True)]
      in if kind = ClassDecl \<or> kind = FunctionExpr
         then (Ref f,
               h @ [Obj \<lparr> props = own @ [(Str ''prototype'',
                                Data (Ref (Suc f)) (kind = FunctionExpr) False False)],
                          proto = FunctionPrototype, extensible = True, fcode = Some c \<rparr>,
                    Obj \<lparr> props = [(Str ''constructor'', Data (Ref f) True False True)],
                          proto = ObjectPrototype, extensible = True, fcode = None \<rparr>])
         else (Ref f,
               h @ [Obj \<lparr> props = own, proto = FunctionPrototype, extensible = True,
                          fcode = Some c \<rparr>]))"

text \<open>
  \<open>ToString\<close> of a value inside a string concatenation. A symbol throws; an object
  would run its \<open>toString\<close>.
\<close>

definition to_string :: "val \<Rightarrow> error + string" where
  "to_string v =
     (case v of
        Undefined \<Rightarrow> Inr ''undefined''
      | Null \<Rightarrow> Inr ''null''
      | BoolV b \<Rightarrow> Inr (if b then ''true'' else ''false'')
      | NumV n \<Rightarrow> Inr (if n < 0 then CHR ''-'' # dec (nat (- n)) else dec (nat n))
      | StrV s \<Rightarrow> Inr s
      | SymV n \<Rightarrow> Inl (TypeError ''Cannot convert a Symbol value to a string'')
      | _ \<Rightarrow> Inl Unmodelled)"

text \<open>
  \<open>x instanceof C\<close>, for the object behind \<open>x\<close> (none when \<open>x\<close> is a
  primitive). The intrinsic \<open>Function.prototype[Symbol.hasInstance]\<close> is the
  ordinary test and is not listed in the table of \<open>Function.prototype\<close>; a handler that
  the lookup does find is the user's code. \<open>on_chain\<close> walks the prototype chain of
  \<open>x\<close>, with the fuel of \<open>get_chain\<close>.
\<close>

definition hasInstance :: key where "hasInstance = Sym 1"

fun on_chain :: "heap \<Rightarrow> nat \<Rightarrow> obj \<Rightarrow> val \<Rightarrow> error + bool" where
  "on_chain h 0 ob P = Inl Unmodelled"
| "on_chain h (Suc n) ob P =
     (if proto ob = Null then Inr False
      else if proto ob = P then Inr True
      else (case view h (proto ob) of
              None \<Rightarrow> Inl Unmodelled
            | Some ob' \<Rightarrow> on_chain h n ob' P))"

definition instanceof_obj :: "heap \<Rightarrow> obj option \<Rightarrow> val \<Rightarrow> error + bool" where
  "instanceof_obj h x C =
     (case view h C of
        None \<Rightarrow> Inl (TypeError ''Right-hand side of instanceof is not an object'')
      | Some c \<Rightarrow>
          (case get h C hasInstance of
             Inl e \<Rightarrow> Inl e
           | Inr handler \<Rightarrow>
               (if handler \<noteq> Undefined \<and> handler \<noteq> Null then Inl Unmodelled
                else (case fcode c of
                        None \<Rightarrow> Inl (TypeError ''Right-hand side of instanceof is not callable'')
                      | Some (Bound f) \<Rightarrow> Inl Unmodelled
                      | Some cd \<Rightarrow>
                          (case x of
                             None \<Rightarrow> Inr False
                           | Some ob \<Rightarrow>
                               (case get h C (Str ''prototype'') of
                                  Inl e \<Rightarrow> Inl e
                                | Inr P \<Rightarrow>
                                    (if view h P = None
                                     then Inl (TypeError
                                       ''Function has non-object prototype in instanceof check'')
                                     else on_chain h (Suc (Suc (length h))) ob P)))))))"

definition instanceof :: "heap \<Rightarrow> val \<Rightarrow> val \<Rightarrow> error + bool" where
  "instanceof h x C = instanceof_obj h (view h x) C"

text \<open>
  The \<open>this\<close> of a non-strict function: the receiver when it is an object, the global
  object for \<open>undefined\<close> and \<open>null\<close>, a fresh wrapper for any other primitive.
\<close>

definition this_binding :: "heap \<Rightarrow> val \<Rightarrow> val \<times> heap" where
  "this_binding h v =
     (if v = Undefined \<or> v = Null then (GlobalObject, h) else Object_of h v)"

section \<open>The library\<close>

subsection \<open>hasOwn and isConstructor\<close>

text \<open>
  \<open>Object.prototype.hasOwnProperty.call(obj, key)\<close>: a TypeError on \<open>undefined\<close> and
  \<open>null\<close>, the own-key test otherwise.
\<close>

definition hasOwn :: "heap \<Rightarrow> val \<Rightarrow> key \<Rightarrow> error + bool" where
  "hasOwn h obj k =
     (case to_object h obj of
        None \<Rightarrow>
          (if obj = Undefined \<or> obj = Null
           then Inl (TypeError ''Cannot convert undefined or null to object'')
           else Inl Unmodelled)
      | Some ob \<Rightarrow> Inr (k \<in> set (map fst (props ob))))"

text \<open>
  \<open>typeof iface == 'function' && hasOwn(iface, 'prototype')\<close>; the conjunction
  short-cuts, so \<open>hasOwn\<close> runs on callables only.
\<close>

text \<open>
  A constructor-like value, in the host's terms: an object with a call behaviour and an
  own \<open>prototype\<close> entry in its table.
\<close>

definition callable :: "heap \<Rightarrow> val \<Rightarrow> bool" where
  "callable h v = (case view h v of None \<Rightarrow> False | Some ob \<Rightarrow> fcode ob \<noteq> None)"

definition own_key :: "heap \<Rightarrow> val \<Rightarrow> key \<Rightarrow> bool" where
  "own_key h v k =
     (case view h v of None \<Rightarrow> False | Some ob \<Rightarrow> k \<in> set (map fst (props ob)))"

definition constructor_like :: "heap \<Rightarrow> val \<Rightarrow> bool" where
  "constructor_like h v = (callable h v \<and> own_key h v (Str ''prototype''))"

definition isConstructor :: "heap \<Rightarrow> val \<Rightarrow> error + bool" where
  "isConstructor h iface =
     (if typeof h iface = ''function'' then hasOwn h iface (Str ''prototype'')
      else Inr False)"

subsection \<open>propertiesOf\<close>

text \<open>
  The closure of the iterator: the object, the keys taken when \<open>propertiesOf\<close> was
  called, the position, and the one result object (whose \<open>value\<close> is the one array).
\<close>

record iter =
  target :: val
  names :: "key list"
  index :: nat
  result :: val

definition result_obj :: "val \<Rightarrow> bool \<Rightarrow> obj" where
  "result_obj a d =
     \<lparr> props = [(Str ''done'', Data (BoolV d) True False False),
                (Str ''value'', Data a False False False)],
       proto = ObjectPrototype, extensible = True, fcode = None \<rparr>"

definition propertiesOf :: "heap \<Rightarrow> val \<Rightarrow> iter \<times> heap" where
  "propertiesOf h v =
     (let (ob, h1) = Object_of h v;
          names0 = getOwnPropertyNames h1 ob;
          (a, h2) = alloc h1 (Arr [] False);
          (r, h3) = alloc h2 (Obj (result_obj (Ref a) False))
      in (\<lparr> target = ob, names = names0 @ getOwnPropertySymbols h3 ob,
            index = 0, result = Ref r \<rparr>, h3))"

definition iter_next :: "heap \<Rightarrow> iter \<Rightarrow> (val \<times> iter) res" where
  "iter_next h it =
     (if length (names it) \<le> index it then
        andThen (upd h (put h (result it) (Str ''done'') (BoolV True))) (\<lambda>u h.
        andThen (lift h (get h (result it) (Str ''value''))) (\<lambda>a h.
        andThen (upd h (set_length h a 0)) (\<lambda>u h.
        andThen (lift h (get h (result it) (Str ''value''))) (\<lambda>a h.
          (Inr (result it, it), if isFrozen h a then h else freeze h a)))))
      else
        (let key = names it ! index it;
             it' = it\<lparr>index := Suc (index it)\<rparr>
         in
        andThen (lift h (get h (result it) (Str ''value''))) (\<lambda>a h.
        andThen (upd h (set_length h a 2)) (\<lambda>u h.
        andThen (lift h (get h (result it) (Str ''value''))) (\<lambda>a h.
        andThen (upd h (store h a 0 (key_val key))) (\<lambda>u h.
        andThen (lift h (get h (result it) (Str ''value''))) (\<lambda>a h.
        andThen (upd h (store h a 1 (getOwnPropertyDescriptor h (target it) key))) (\<lambda>u h.
          (Inr (result it, it'), h)))))))))"

subsection \<open>validateInterface\<close>

text \<open>
  \<open>Object.setPrototypeOf(function() {...}, original)\<close>: a new function whose
  prototype link is the original. \<open>setPrototypeOf\<close> throws unless \<open>original\<close> is an
  object or \<open>null\<close>.
\<close>

definition validateInterface :: "heap \<Rightarrow> val \<Rightarrow> val \<Rightarrow> val \<Rightarrow> val res" where
  "validateInterface h iface prop original =
     (let (f, h1) = new_function h FunctionExpr [] 0 (Guard iface prop original)
      in if view h1 original = None \<and> original \<noteq> Null
         then (Inl (TypeError ''Object prototype may only be an Object or null''), h1)
         else (case f of
                 Ref a \<Rightarrow>
                   (case h1 ! a of
                      Obj ob \<Rightarrow> (Inr f, h1[a := Obj (ob\<lparr>proto := original\<rparr>)])
                    | Arr xs frozen \<Rightarrow> (Inl Unmodelled, h1))
               | _ \<Rightarrow> (Inl Unmodelled, h1)))"

text \<open>
  What the body of the guard does, with \<open>this\<close> bound and the arguments \<open>args\<close>:
  it throws, or it hands the call over to a function
  (\<open>original.apply(this, arguments)\<close>, whose result is the result of the guard).
\<close>

datatype outcome = Throws error | Forwards val val "val list"

definition concat_str :: "string \<Rightarrow> val \<Rightarrow> error + string" where
  "concat_str s v = (case to_string v of Inl e \<Rightarrow> Inl e | Inr t \<Rightarrow> Inr (s @ t))"

definition guard_message :: "heap \<Rightarrow> val \<Rightarrow> val \<Rightarrow> error" where
  "guard_message h iface prop =
     (case concat_str [CHR 0x27] prop of
        Inl e \<Rightarrow> e
      | Inr s1 \<Rightarrow>
          (case get h iface (Str ''name'') of
             Inl e \<Rightarrow> e
           | Inr n \<Rightarrow>
               (case concat_str
                       (s1 @ [CHR 0x27]
                           @ '' called on an object that does not implement interface '') n of
                  Inl e \<Rightarrow> e
                | Inr s2 \<Rightarrow> TypeError (s2 @ ''.''))))"

definition call_guard ::
    "heap \<Rightarrow> val \<Rightarrow> val \<Rightarrow> val \<Rightarrow> val \<Rightarrow> val list \<Rightarrow> outcome" where
  "call_guard h iface prop original this args =
     (case instanceof h this iface of
        Inl e \<Rightarrow> Throws e
      | Inr b \<Rightarrow>
          (if b then Forwards original this args
           else Throws (guard_message h iface prop)))"

text \<open>
  Calling a function value with a receiver: a guard binds \<open>this\<close> and runs its check,
  any other function is run.
\<close>

definition call :: "heap \<Rightarrow> val \<Rightarrow> val \<Rightarrow> val list \<Rightarrow> outcome \<times> heap" where
  "call h f receiver args =
     (case view h f of
        None \<Rightarrow> (Throws (TypeError ''not a function''), h)
      | Some ob \<Rightarrow>
          (case fcode ob of
             None \<Rightarrow> (Throws (TypeError ''not a function''), h)
           | Some (Guard iface prop original) \<Rightarrow>
               (let (this, h1) = this_binding h receiver
                in (call_guard h1 iface prop original this args, h1))
           | Some c \<Rightarrow> (Forwards f receiver args, h)))"

subsection \<open>restrictProperties\<close>

text \<open>
  \<open>indexOf.call(exceptFor, prop) >= 0\<close>, after \<open>exceptFor = exceptFor || 0\<close>.
  \<open>indexOf\<close> compares with \<open>===\<close>. On a string it searches the characters; on
  anything else without a \<open>length\<close> it finds nothing.
\<close>

definition excluded :: "heap \<Rightarrow> val \<Rightarrow> val \<Rightarrow> error + bool" where
  "excluded h exceptFor prop =
     (if \<not> truthy exceptFor then Inr False
      else (case exceptFor of
              StrV s \<Rightarrow> Inr (prop \<in> set (map (\<lambda>c. StrV [c]) s))
            | _ \<Rightarrow>
                (case (case exceptFor of
                         Ref a \<Rightarrow> (if a < length h
                                   then (case h ! a of Arr xs frozen \<Rightarrow> Some xs
                                                     | Obj ob \<Rightarrow> None)
                                   else None)
                       | _ \<Rightarrow> None) of
                   Some xs \<Rightarrow> Inr (prop \<in> set xs)
                 | None \<Rightarrow>
                     (case get h exceptFor (Str ''length'') of
                        Inl e \<Rightarrow> Inl e
                      | Inr n \<Rightarrow> (if n = Undefined then Inr False else Inl Unmodelled)))))"

text \<open>
  \<open>descriptors[prop] = descriptor\<close> on the plain object \<open>descriptors\<close>: an own
  property, except for the name \<open>__proto__\<close>, which is the inherited setter of
  \<open>Object.prototype\<close> and changes the prototype link of \<open>descriptors\<close> instead.
\<close>

definition assign :: "(key \<times> desc) list \<Rightarrow> key \<Rightarrow> desc \<Rightarrow> (key \<times> desc) list" where
  "assign ds k d = (if k = Str ''__proto__'' then ds else set_prop k d ds)"

definition val_key :: "val \<Rightarrow> key option" where
  "val_key v = (case v of StrV s \<Rightarrow> Some (Str s) | SymV n \<Rightarrow> Some (Sym n) | _ \<Rightarrow> None)"

text \<open>\<open>a[i]\<close> read from an array.\<close>

definition element :: "heap \<Rightarrow> val \<Rightarrow> nat \<Rightarrow> error + val" where
  "element h v i =
     (case v of
        Ref a \<Rightarrow>
          (if a < length h
           then (case h ! a of
                   Arr xs frozen \<Rightarrow> Inr (if i < length xs then xs ! i else Undefined)
                 | Obj ob \<Rightarrow> Inl Unmodelled)
           else Inl Unmodelled)
      | _ \<Rightarrow> Inl Unmodelled)"

text \<open>
  The body of the loop for one key: \<open>None\<close> is \<open>continue\<close>, \<open>Some d\<close> is the
  descriptor stored under the key.
\<close>

definition wrap_accessor ::
    "heap \<Rightarrow> val \<Rightarrow> string \<Rightarrow> val \<Rightarrow> val \<Rightarrow> val res" where
  "wrap_accessor h object kind prop f =
     (if truthy f
      then andThen (lift h (get h object (Str ''constructor''))) (\<lambda>iface h.
           andThen (lift h (concat_str kind prop)) (\<lambda>name h.
             validateInterface h iface (StrV name) f))
      else (Inr f, h))"

definition restrict_one ::
    "heap \<Rightarrow> val \<Rightarrow> bool \<Rightarrow> val \<Rightarrow> val \<Rightarrow> val \<Rightarrow> desc option res" where
  "restrict_one h object isCons exceptFor prop descriptor =
     andThen (lift h (excluded h exceptFor prop)) (\<lambda>skip h.
       if skip then (Inr None, h)
       else (case descriptor of
               Undefined \<Rightarrow>
                 (Inl (TypeError ''Cannot read properties of undefined''), h)
             | Dsc d \<Rightarrow>
                 (if \<not> configurable d then (Inr None, h)
                  else (case d of
                          Data v w e c \<Rightarrow>
                            (if \<not> isCons \<and> typeof h v = ''function''
                                \<and> prop \<noteq> StrV ''constructor''
                             then andThen (lift h (get h object (Str ''constructor'')))
                                    (\<lambda>iface h.
                                  andThen (validateInterface h iface prop v) (\<lambda>f h.
                                    (Inr (Some (Data f False False False)), h)))
                             else (Inr (Some (Data v False False False)), h))
                        | Accessor g s e c \<Rightarrow>
                            (if \<not> isCons
                             then andThen (wrap_accessor h object ''get '' prop g) (\<lambda>g' h.
                                  andThen (wrap_accessor h object ''set '' prop s) (\<lambda>s' h.
                                    (Inr (Some (Accessor g' s' False False)), h)))
                             else (Inr (Some (Accessor g s False False)), h))))
             | _ \<Rightarrow> (Inl Unmodelled, h)))"

text \<open>
  The loop \<open>for (...; !(result = properties.next()).done; )\<close>. It ends when the
  iterator reports \<open>done\<close>; the fuel is the number of rounds, and running out of it
  (\<open>None\<close>) is the loop that does not end.
\<close>

fun restrict_loop ::
    "nat \<Rightarrow> heap \<Rightarrow> iter \<Rightarrow> val \<Rightarrow> bool \<Rightarrow> val \<Rightarrow> (key \<times> desc) list
      \<Rightarrow> (key \<times> desc) list res option" where
  "restrict_loop 0 h it object isCons exceptFor ds = None"
| "restrict_loop (Suc n) h it object isCons exceptFor ds =
     (case iter_next h it of
        (Inl e, h1) \<Rightarrow> Some (Inl e, h1)
      | (Inr (res, it1), h1) \<Rightarrow>
          (case get h1 res (Str ''done'') of
             Inl e \<Rightarrow> Some (Inl e, h1)
           | Inr d \<Rightarrow>
               (if truthy d then Some (Inr ds, h1)
                else (case andThen (lift h1 (get h1 res (Str ''value''))) (\<lambda>a h.
                           andThen (lift h (element h a 0)) (\<lambda>prop h.
                           andThen (lift h (get h res (Str ''value''))) (\<lambda>a h.
                           andThen (lift h (element h a 1)) (\<lambda>descriptor h.
                           andThen (restrict_one h object isCons exceptFor prop descriptor)
                             (\<lambda>r h. (Inr (prop, r), h)))))) of
                        (Inl e, h2) \<Rightarrow> Some (Inl e, h2)
                      | (Inr (prop, None), h2) \<Rightarrow>
                          restrict_loop n h2 it1 object isCons exceptFor ds
                      | (Inr (prop, Some d'), h2) \<Rightarrow>
                          (case val_key prop of
                             None \<Rightarrow> Some (Inl Unmodelled, h2)
                           | Some k \<Rightarrow>
                               restrict_loop n h2 it1 object isCons exceptFor
                                 (assign ds k d'))))))"

declare restrict_loop.simps [simp del]

definition restrictProperties ::
    "heap \<Rightarrow> val \<Rightarrow> bool \<Rightarrow> val \<Rightarrow> val res option" where
  "restrictProperties h object isCons exceptFor =
     (let (properties, h1) = propertiesOf h object
      in (case restrict_loop (Suc (length (names properties))) h1 properties
                 object isCons exceptFor [] of
            None \<Rightarrow> None
          | Some (Inl e, h2) \<Rightarrow> Some (Inl e, h2)
          | Some (Inr ds, h2) \<Rightarrow> Some (defineProperties h2 object ds)))"

subsection \<open>restrict and sealed\<close>

definition verifyIsConstructor :: "heap \<Rightarrow> val \<Rightarrow> string option \<Rightarrow> error + val" where
  "verifyIsConstructor h iface name =
     (case isConstructor h iface of
        Inl e \<Rightarrow> Inl e
      | Inr b \<Rightarrow>
          (if b then Inr iface
           else Inl (TypeError ((case name of None \<Rightarrow> ''iface'' | Some n \<Rightarrow> n)
                                @ '' must be a constructor.''))))"

text \<open>
  The state of the module: the heap and \<open>restrictMap\<close>, the set of the classes that
  have been restricted.
\<close>

record world =
  heap :: heap
  restrictMap :: "val list"

definition in_world :: "world \<Rightarrow> 'a res \<Rightarrow> (error + 'a) \<times> world" where
  "in_world w r = (fst r, w\<lparr>heap := snd r\<rparr>)"

text \<open>The type tag: defined on the prototype unless the prototype has its own.\<close>

definition tag_prototype :: "heap \<Rightarrow> val \<Rightarrow> val \<Rightarrow> val \<Rightarrow> unit res" where
  "tag_prototype h iface exceptFor prototype =
     andThen (lift h (hasOwn h prototype toStringTag)) (\<lambda>tagged h.
       if tagged then (Inr (), h)
       else andThen (lift h (hasOwn h exceptFor (Str ''name''))) (\<lambda>named h.
            andThen (lift h (get h (if named then exceptFor else iface) (Str ''name'')))
              (\<lambda>name h.
            andThen (defineProperty h prototype toStringTag (only_value name)) (\<lambda>u h.
              (Inr (), h)))))"

definition restrict_class :: "heap \<Rightarrow> val \<Rightarrow> val \<Rightarrow> val res option" where
  "restrict_class h iface exceptFor =
     (case andThen (lift h (verifyIsConstructor h iface None)) (\<lambda>c h.
           andThen (lift h (get h c (Str ''prototype''))) (\<lambda>prototype h.
           andThen (tag_prototype h iface exceptFor prototype) (\<lambda>u h.
           andThen (lift h (get h exceptFor (Str ''exclude''))) (\<lambda>exclude h.
             (Inr (prototype, exclude), h))))) of
        (Inl e, h1) \<Rightarrow> Some (Inl e, h1)
      | (Inr (prototype, exclude), h1) \<Rightarrow>
          (case restrictProperties h1 prototype False exclude of
             None \<Rightarrow> None
           | Some (Inl e, h2) \<Rightarrow> Some (Inl e, h2)
           | Some (Inr p, h2) \<Rightarrow>
               (case get h2 exceptFor (Str ''excludeStatic'') of
                  Inl e \<Rightarrow> Some (Inl e, h2)
                | Inr excludeStatic \<Rightarrow> restrictProperties h2 iface True excludeStatic)))"

definition restrict :: "world \<Rightarrow> val \<Rightarrow> val \<Rightarrow> ((error + val) \<times> world) option" where
  "restrict w iface exceptFor =
     (if typeof (heap w) iface = ''object''
      then Some (in_world w
             (let (f, h1) = new_function (heap w) FunctionExpr [] 1 (Decorator iface)
              in (Inr f, h1)))
      else if iface \<in> set (restrictMap w) then Some (Inr iface, w)
      else (let (exceptFor', h1) =
                  (if exceptFor = Undefined
                   then (let (a, h') = alloc (heap w) (Obj (empty_obj ObjectPrototype))
                         in (Ref a, h'))
                   else (exceptFor, heap w))
            in map_option (in_world w) (restrict_class h1 iface exceptFor')))"

text \<open>
  Calling the function that \<open>restrict(options)\<close> returned:
  \<open>restrict(verifyIsConstructor(iface), exceptFor)\<close>.
\<close>

definition call_decorator ::
    "world \<Rightarrow> val \<Rightarrow> val \<Rightarrow> ((error + val) \<times> world) option" where
  "call_decorator w f iface =
     (case view (heap w) f of
        Some ob \<Rightarrow>
          (case fcode ob of
             Some (Decorator exceptFor) \<Rightarrow>
               (case verifyIsConstructor (heap w) iface None of
                  Inl e \<Rightarrow> Some (Inl e, w)
                | Inr c \<Rightarrow> restrict w c exceptFor)
           | _ \<Rightarrow> Some (Inl Unmodelled, w))
      | None \<Rightarrow> Some (Inl Unmodelled, w))"

definition sealed :: "heap \<Rightarrow> val \<Rightarrow> val res" where
  "sealed h iface =
     andThen (lift h (verifyIsConstructor h iface None)) (\<lambda>c h.
     andThen (upd h (seal h c)) (\<lambda>u h.
     andThen (lift h (get h iface (Str ''prototype''))) (\<lambda>prototype h.
     andThen (upd h (seal h prototype)) (\<lambda>u h.
       (Inr iface, h)))))"

section \<open>Proxies\<close>

text \<open>
  \<open>isConstructor\<close> is specified on every value of the host, and the host has objects that
  the object model above leaves out: proxies, whose own-property lookup runs a function of
  the user, the \<open>getOwnPropertyDescriptor\<close> trap of the handler. This section gives the
  two host operations that \<open>isConstructor\<close> calls, \<open>typeof\<close> and \<open>hasOwnProperty\<close>,
  on proxies as well. A proxy is its target and its handler, two values of the heap (the
  handler of a revoked proxy is \<open>null\<close>); a proxy of a proxy is left out.

  \<open>run n\<close> is what the user's function number \<open>n\<close> does when it is called: from a
  heap, a receiver and the arguments it returns a value or throws, and leaves a heap.
\<close>

type_synonym run = "nat \<Rightarrow> heap \<Rightarrow> val \<Rightarrow> val list \<Rightarrow> val res"

datatype input = Plain val | Proxy val val

text \<open>A proxy is callable when its target is.\<close>

definition typeof_any :: "heap \<Rightarrow> input \<Rightarrow> string" where
  "typeof_any h x =
     (case x of
        Plain v \<Rightarrow> typeof h v
      | Proxy t handler \<Rightarrow> (if callable h t then ''function'' else ''object''))"

text \<open>
  What the host makes of the value \<open>r\<close> that the trap returned for the key \<open>k\<close>
  (the steps of the proxy's \<open>[[GetOwnProperty]]\<close> after the call of the trap): whether
  the proxy has the property, or the TypeError of a result that contradicts the target. A
  result that is an object of the heap would have its attributes read one by one and is
  not followed here; a descriptor record is taken as it is.
\<close>

definition trap_result :: "heap \<Rightarrow> val \<Rightarrow> key \<Rightarrow> val \<Rightarrow> error + bool" where
  "trap_result h t k r =
     (case view h t of
        None \<Rightarrow> Inl Unmodelled
      | Some tob \<Rightarrow>
          (case r of
             Undefined \<Rightarrow>
               (case map_of (props tob) k of
                  None \<Rightarrow> Inr False
                | Some c \<Rightarrow>
                    (if \<not> configurable c \<or> \<not> extensible tob
                     then Inl (TypeError ''The trap hides a property that the target must show'')
                     else Inr False))
           | Dsc d \<Rightarrow>
               (if validate_apply (extensible tob) (full d) (map_of (props tob) k) = None
                then Inl (TypeError ''The trap returned a descriptor incompatible with the target'')
                else if \<not> configurable d
                        \<and> (case map_of (props tob) k of
                              None \<Rightarrow> True
                            | Some c \<Rightarrow>
                                configurable c
                                \<or> (case d of
                                      Data v w e cf \<Rightarrow>
                                        \<not> w \<and> (case c of Data v' w' e' cf' \<Rightarrow> w'
                                                         | Accessor g s e' cf' \<Rightarrow> False)
                                    | Accessor g s e cf \<Rightarrow> False))
                then Inl (TypeError ''The trap reported a property as non-configurable'')
                else Inr True)
           | Ref a \<Rightarrow> Inl Unmodelled
           | _ \<Rightarrow> Inl (TypeError ''The trap returned neither an object nor undefined'')))"

text \<open>
  \<open>Object.prototype.hasOwnProperty.call(x, k)\<close> on every value. On a proxy: a TypeError
  when it is revoked; the handler's trap is looked up; without a trap the target answers;
  with one, the trap is called on the handler with the target and the key, and what it
  throws is thrown, in the heap it left.
\<close>

definition hasOwn_any :: "run \<Rightarrow> heap \<Rightarrow> input \<Rightarrow> key \<Rightarrow> bool res" where
  "hasOwn_any run h x k =
     (case x of
        Plain v \<Rightarrow> (hasOwn h v k, h)
      | Proxy t handler \<Rightarrow>
          (if handler = Null
           then (Inl (TypeError ''Cannot perform the operation on a revoked proxy''), h)
           else (case get h handler (Str ''getOwnPropertyDescriptor'') of
                   Inl e \<Rightarrow> (Inl e, h)
                 | Inr trap \<Rightarrow>
                     (if trap = Undefined \<or> trap = Null then (hasOwn h t k, h)
                      else (case (case view h trap of None \<Rightarrow> None | Some f \<Rightarrow> fcode f) of
                              None \<Rightarrow> (Inl (TypeError ''The trap is not a function''), h)
                            | Some (Native n) \<Rightarrow>
                                (case run n h handler [t, key_val k] of
                                   (Inl e, h1) \<Rightarrow> (Inl e, h1)
                                 | (Inr r, h1) \<Rightarrow> (trap_result h1 t k r, h1))
                            | Some c \<Rightarrow> (Inl Unmodelled, h))))))"

text \<open>
  \<open>typeof iface == 'function' && hasOwn(iface, 'prototype')\<close> once more, on every value
  and with the heap that the call leaves.
\<close>

definition isConstructor_any :: "run \<Rightarrow> heap \<Rightarrow> input \<Rightarrow> bool res" where
  "isConstructor_any run h iface =
     (if typeof_any h iface = ''function'' then hasOwn_any run h iface (Str ''prototype'')
      else (Inr False, h))"

section \<open>Example classes\<close>

text \<open>
  A realm with its eight intrinsic objects, and on top of it a class at address 8, its
  prototype at 9, two functions at 10 and 11, and an instance of the class at 12:
  \<^verbatim>\<open>class name { ...members }; new name()\<close>.
\<close>

definition realm :: heap where
  "realm =
     [Obj (empty_obj Null),
      Obj \<lparr> props = [], proto = Ref 0, extensible = True, fcode = Some (Native 0) \<rparr>,
      Obj (empty_obj (Ref 0)), Obj (empty_obj (Ref 0)), Obj (empty_obj (Ref 0)),
      Obj (empty_obj (Ref 0)), Obj (empty_obj (Ref 0)), Obj (empty_obj (Ref 0))]"

definition fn :: "string \<Rightarrow> nat \<Rightarrow> cell" where
  "fn name n =
     Obj \<lparr> props = [(Str ''length'', Data (NumV 0) False False True),
                     (Str ''name'', Data (StrV name) False False True)],
           proto = Ref 1, extensible = True, fcode = Some (Native n) \<rparr>"

definition class_heap ::
    "string \<Rightarrow> (key \<times> desc) list \<Rightarrow> (key \<times> desc) list \<Rightarrow> heap" where
  "class_heap name statics members =
     realm @
     [Obj \<lparr> props = [(Str ''length'', Data (NumV 0) False False True),
                      (Str ''name'', Data (StrV name) False False True),
                      (Str ''prototype'', Data (Ref 9) False False False)] @ statics,
            proto = Ref 1, extensible = True, fcode = Some (Native 1) \<rparr>,
      Obj \<lparr> props = members, proto = Ref 0, extensible = True, fcode = None \<rparr>,
      fn ''f'' 2, fn ''g'' 3,
      Obj \<lparr> props = [], proto = Ref 9, extensible = True, fcode = None \<rparr>]"

text \<open>
  \<^verbatim>\<open>class C { m() {} get x() {} [Symbol.iterator]() {} static s = 1 }\<close>, and the
  options \<^verbatim>\<open>{ exclude: ['m'] }\<close> at address 13 (the array at 14).
\<close>

definition demo :: heap where
  "demo =
     class_heap ''C'' [(Str ''s'', Data (NumV 1) True True True)]
       [(Str ''constructor'', Data (Ref 8) True False True),
        (Str ''m'', Data (Ref 10) True False True),
        (Str ''x'', Accessor (Ref 11) Undefined False True),
        (Sym 2, Data (Ref 10) True False True)]
     @ [Obj \<lparr> props = [(Str ''exclude'', Data (Ref 14) True True True)],
               proto = Ref 0, extensible = True, fcode = None \<rparr>,
        Arr [StrV ''m''] False]"

definition demo_world :: world where
  "demo_world = \<lparr> heap = demo, restrictMap = [] \<rparr>"

text \<open>
  \<^verbatim>\<open>class P { __proto__() {} }\<close>: in a class body this is a method, an own property
  of the prototype named \<open>__proto__\<close>.
\<close>

definition demo_proto :: world where
  "demo_proto =
     \<lparr> heap = class_heap ''P'' []
         [(Str ''constructor'', Data (Ref 8) True False True),
          (Str ''__proto__'', Data (Ref 10) True False True)],
       restrictMap = [] \<rparr>"

text \<open>\<^verbatim>\<open>class S { m() {} get [Symbol.toStringTag]() { return 'S' } }\<close>\<close>

definition demo_symget :: world where
  "demo_symget =
     \<lparr> heap = class_heap ''S'' []
         [(Str ''constructor'', Data (Ref 8) True False True),
          (Str ''m'', Data (Ref 10) True False True),
          (Sym 0, Accessor (Ref 11) Undefined False True)],
       restrictMap = [] \<rparr>"

text \<open>
  \<^verbatim>\<open>class K {}; Object.defineProperty(K.prototype, 'constructor',
  { set: f, configurable: true })\<close>
\<close>

definition demo_ctor :: world where
  "demo_ctor =
     \<lparr> heap = class_heap ''K'' [(Str ''s'', Data (Ref 11) True True True)]
         [(Str ''constructor'', Accessor Undefined (Ref 10) False True)],
       restrictMap = [] \<rparr>"

text \<open>\<^verbatim>\<open>class T {}; T.prototype[Symbol.toStringTag] = 'X'\<close>\<close>

definition demo_tag :: world where
  "demo_tag =
     \<lparr> heap = class_heap ''T'' []
         [(Str ''constructor'', Data (Ref 8) True False True),
          (Sym 0, Data (StrV ''X'') True True True)],
       restrictMap = [] \<rparr>"

text \<open>
  Two proxies over the class \<open>C\<close> of \<open>demo\<close>, and the functions of the user behind
  their traps:
  \<^verbatim>\<open>new Proxy(C, { getOwnPropertyDescriptor() { throw new TypeError('denied') } })\<close>
  with its handler at address 15 and the trap, function 7, at 16; and
  \<^verbatim>\<open>new Proxy(C, { calls: 0, getOwnPropertyDescriptor(t, k) { this.calls = 1;
  return Reflect.getOwnPropertyDescriptor(t, k) } })\<close> with its handler at 17 and the
  trap, function 8, at 18.
\<close>

definition demo_proxy :: heap where
  "demo_proxy =
     demo
     @ [Obj \<lparr> props = [(Str ''getOwnPropertyDescriptor'', Data (Ref 16) True True True)],
               proto = Ref 0, extensible = True, fcode = None \<rparr>,
        fn ''getOwnPropertyDescriptor'' 7,
        Obj \<lparr> props = [(Str ''calls'', Data (NumV 0) True True True),
                        (Str ''getOwnPropertyDescriptor'', Data (Ref 18) True True True)],
               proto = Ref 0, extensible = True, fcode = None \<rparr>,
        fn ''getOwnPropertyDescriptor'' 8]"

definition user :: run where
  "user n h this args =
     (if n = 7 then (Inl (TypeError ''denied''), h)
      else if n = 8
      then (case put h this (Str ''calls'') (NumV 1) of
              Inl e \<Rightarrow> (Inl e, h)
            | Inr h1 \<Rightarrow>
                (Inr (case val_key (args ! 1) of
                        None \<Rightarrow> Undefined
                      | Some k \<Rightarrow> getOwnPropertyDescriptor h1 (args ! 0) k), h1))
      else (Inl Unmodelled, h))"

text \<open>
  The class \<open>T\<close> again, with the options
  \<^verbatim>\<open>{ exclude: [Symbol.toStringTag] }\<close> at address 13 (the array at 14).
\<close>

definition demo_tag_excluded :: world where
  "demo_tag_excluded =
     \<lparr> heap = heap demo_tag
         @ [Obj \<lparr> props = [(Str ''exclude'', Data (Ref 14) True True True)],
                   proto = Ref 0, extensible = True, fcode = None \<rparr>,
            Arr [SymV 0] False],
       restrictMap = [] \<rparr>"

text \<open>\<^verbatim>\<open>class C {}\<close>, and the options \<^verbatim>\<open>{ set name(v) {} }\<close> at address 13.\<close>

definition demo_setter_name :: world where
  "demo_setter_name =
     \<lparr> heap = class_heap ''C'' []
                [(Str ''constructor'', Data (Ref 8) True False True)]
         @ [Obj \<lparr> props = [(Str ''name'', Accessor Undefined (Ref 10) True True)],
                   proto = Ref 0, extensible = True, fcode = None \<rparr>],
       restrictMap = [] \<rparr>"

section \<open>What a caller observes\<close>

text \<open>
  The iterator keeps one result object and, in its \<open>value\<close>, one array. \<open>iter_ok\<close>
  says that these two cells are as the iterator left them: the result object has its
  writable \<open>done\<close> and its \<open>value\<close>, the value is an array other than the object
  iterated, \<open>done\<close> has not been set while keys remain, and only the iterator
  has frozen the array. Any other cell of the heap may have changed since the last step.
\<close>

definition iter_ok :: "heap \<Rightarrow> iter \<Rightarrow> bool" where
  "iter_ok h it =
     (case result it of
        Ref r \<Rightarrow>
          r < length h \<and>
          (case h ! r of
             Obj ob \<Rightarrow>
               (case (map_of (props ob) (Str ''done''), map_of (props ob) (Str ''value'')) of
                  (Some (Data d w e c), Some (Data (Ref a) w' e' c')) \<Rightarrow>
                    w \<and> (index it < length (names it) \<longrightarrow> d = BoolV False)
                    \<and> a < length h \<and> a \<noteq> r \<and> target it \<noteq> Ref a
                    \<and> (case h ! a of
                          Arr xs frozen \<Rightarrow>
                            (frozen \<longrightarrow> length (names it) \<le> index it \<and> xs = [])
                        | Obj ob' \<Rightarrow> False)
                | _ \<Rightarrow> False)
           | Arr xs frozen \<Rightarrow> False)
      | _ \<Rightarrow> False)"

text \<open>The two cells of the iterator: its result object and the array in \<open>value\<close>.\<close>

definition iter_cells :: "heap \<Rightarrow> iter \<Rightarrow> addr list" where
  "iter_cells h it =
     (case result it of
        Ref r \<Rightarrow>
          r # (case get h (Ref r) (Str ''value'') of Inr (Ref a) \<Rightarrow> [a] | _ \<Rightarrow> [])
      | _ \<Rightarrow> [])"

text \<open>
  What a holder of the result object reads from it: \<open>result.done\<close>, and the elements of
  the array \<open>result.value\<close> with whether it is frozen.
\<close>

definition value_array :: "heap \<Rightarrow> val \<Rightarrow> (val list \<times> bool) option" where
  "value_array h res =
     (case get h res (Str ''value'') of
        Inr (Ref a) \<Rightarrow>
          (if a < length h
           then (case h ! a of Arr xs frozen \<Rightarrow> Some (xs, frozen) | Obj ob \<Rightarrow> None)
           else None)
      | _ \<Rightarrow> None)"

definition observed :: "heap \<Rightarrow> val \<Rightarrow> (error + val) \<times> (val list \<times> bool) option" where
  "observed h res = (get h res (Str ''done''), value_array h res)"


text \<open>
  An ordinary object of the heap, and what a sealed object allows. A property that is
  not configurable can still be redefined, but only into a descriptor that \<open>locked\<close>
  relates to it: the same kind, the same \<open>enumerable\<close>, still not configurable, the same
  getter and setter, and for a data property that is not writable the same value.
\<close>

definition obj_at :: "heap \<Rightarrow> val \<Rightarrow> obj option" where
  "obj_at h v =
     (case v of
        Ref a \<Rightarrow>
          (if a < length h
           then (case h ! a of Obj ob \<Rightarrow> Some ob | Arr xs frozen \<Rightarrow> None)
           else None)
      | _ \<Rightarrow> None)"


definition primitive :: "val \<Rightarrow> bool" where
  "primitive v = (case v of Ref a \<Rightarrow> False | Dsc d \<Rightarrow> False | _ \<Rightarrow> True)"

definition locked :: "desc \<Rightarrow> desc \<Rightarrow> bool" where
  "locked d d' =
     (case d of
        Data v w e c \<Rightarrow>
          (case d' of
             Data v' w' e' c' \<Rightarrow> e' = e \<and> \<not> c' \<and> (w \<or> (v' = v \<and> \<not> w'))
           | Accessor g' s' e' c' \<Rightarrow> False)
      | Accessor g s e c \<Rightarrow>
          (case d' of
             Data v' w' e' c' \<Rightarrow> False
           | Accessor g' s' e' c' \<Rightarrow> e' = e \<and> \<not> c' \<and> g' = g \<and> s' = s))"

text \<open>
  What \<open>restrictProperties\<close> may make of a configurable property \<open>d\<close> under the key
  \<open>prop\<close>: the locked descriptor of the same kind. On the static side the value, the
  getter and the setter stay; on the instance side a value that is an object may have
  been replaced by its guard unless the key is \<open>constructor\<close>, and so may a getter
  or a setter.
\<close>

definition lockrel :: "bool \<Rightarrow> val \<Rightarrow> desc \<Rightarrow> desc \<Rightarrow> bool" where
  "lockrel isCons prop d d' =
     (case d of
        Data v w e c \<Rightarrow>
          (case d' of
             Data v' w' e' c' \<Rightarrow>
               \<not> w' \<and> \<not> e' \<and> \<not> c'
               \<and> (v' = v \<or> (\<not> isCons \<and> \<not> primitive v \<and> prop \<noteq> StrV ''constructor''))
           | Accessor g' s' e' c' \<Rightarrow> False)
      | Accessor g s e c \<Rightarrow>
          (case d' of
             Data v' w' e' c' \<Rightarrow> False
           | Accessor g' s' e' c' \<Rightarrow>
               \<not> e' \<and> \<not> c' \<and> (g' = g \<and> s' = s \<or> \<not> isCons)))"

text \<open>
  The descriptors that the loop of \<open>restrictProperties\<close> has collected, against the
  object \<open>ob\<close> it reads: one entry per key, each the locked form of a configurable
  property of \<open>ob\<close>.
\<close>

definition ds_ok :: "bool \<Rightarrow> obj \<Rightarrow> (key \<times> desc) list \<Rightarrow> bool" where
  "ds_ok isCons ob ds =
     (distinct (map fst ds)
      \<and> list_all (\<lambda>p. case map_of (props ob) (fst p) of
                         None \<Rightarrow> False
                       | Some d \<Rightarrow> configurable d \<and> lockrel isCons (key_val (fst p)) d (snd p))
           ds)"

text \<open>
  What the loop has decided about one key \<open>k\<close> of the object, with the descriptor \<open>d\<close>:
  before the key has come up nothing is stored under it; once it has, a descriptor is
  stored exactly when the key is not excluded and \<open>d\<close> is configurable.
\<close>

definition tracked :: "bool \<Rightarrow> desc \<Rightarrow> key \<Rightarrow> (key \<times> desc) list \<Rightarrow> bool \<Rightarrow> bool" where
  "tracked skip d k ds seen =
     (if seen then (map_of ds k \<noteq> None) = (\<not> skip \<and> configurable d)
      else map_of ds k = None)"

text \<open>
  The options that \<open>restrict\<close> works with,
  \<open>exceptFor === void 0 ? {} : exceptFor\<close>: a fresh empty object when none are given.
\<close>

definition options :: "heap \<Rightarrow> val \<Rightarrow> val \<times> heap" where
  "options h exceptFor =
     (if exceptFor = Undefined
      then (Ref (length h), h @ [Obj (empty_obj ObjectPrototype)])
      else (exceptFor, h))"

text \<open>
  The value that \<open>restrict\<close> gives a type tag it defines,
  \<open>hasOwn(exceptFor, 'name') ? exceptFor.name : iface.name\<close>: the \<open>name\<close> of the
  options when they have an own property of that name, whatever it holds, and the
  \<open>name\<close> of the class otherwise, both as property reads.
\<close>

definition tag_value :: "heap \<Rightarrow> val \<Rightarrow> val \<Rightarrow> error + val" where
  "tag_value h iface exceptFor =
     (case hasOwn h exceptFor (Str ''name'') of
        Inl e \<Rightarrow> Inl e
      | Inr named \<Rightarrow> get h (if named then exceptFor else iface) (Str ''name''))"

section \<open>Properties\<close>

subsection \<open>isConstructor\<close>

lemma typeof_function: "(typeof h v = ''function'') = callable h v"
  by (cases v) (auto simp: typeof_def callable_def view_def split: option.splits)

lemma hasOwn_view:
  "view h v = Some ob \<Longrightarrow> hasOwn h v k = Inr (k \<in> set (map fst (props ob)))"
  by (cases v) (auto simp: hasOwn_def to_object_def view_def split: if_splits)

lemma isConstructor_eq: "isConstructor h f = Inr (constructor_like h f)"
proof (cases "callable h f")
  case True
  then obtain ob where ob: "view h f = Some ob"
    by (auto simp: callable_def split: option.splits)
  with True show ?thesis
    by (simp add: isConstructor_def typeof_function hasOwn_view constructor_like_def
                  own_key_def)
next
  case False
  then show ?thesis
    by (simp add: isConstructor_def typeof_function constructor_like_def)
qed

lemma new_function_constructor_like:
  "constructor_like (snd (new_function h kind name n c)) (fst (new_function h kind name n c))
     = (kind = ClassDecl \<or> kind = FunctionExpr)"
  by (auto simp: new_function_def Let_def constructor_like_def callable_def own_key_def
                 view_def nth_append)

lemma constructor_like_cell:
  "constructor_like h f
     = (case obj_at h f of
          None \<Rightarrow> False
        | Some ob \<Rightarrow> fcode ob \<noteq> None \<and> Str ''prototype'' \<in> set (map fst (props ob)))"
  by (cases f)
     (auto simp: constructor_like_def callable_def own_key_def view_def obj_at_def
                 arr_view_def dsc_view_def
           split: cell.split)

lemma isConstructor_plain: "isConstructor_any run h (Plain f) = (isConstructor h f, h)"
  by (simp add: isConstructor_any_def isConstructor_def typeof_any_def hasOwn_any_def)

lemma isConstructor_proxy_inert:
  "\<not> callable h t \<Longrightarrow> isConstructor_any run h (Proxy t handler) = (Inr False, h)"
  by (simp add: isConstructor_any_def typeof_any_def)

lemma isConstructor_proxy_plain:
  assumes "callable h t" "handler \<noteq> Null"
    "get h handler (Str ''getOwnPropertyDescriptor'') = Inr Undefined"
  shows "isConstructor_any run h (Proxy t handler) = (Inr (constructor_like h t), h)"
  using assms isConstructor_eq[of h t]
  by (simp add: isConstructor_any_def typeof_any_def hasOwn_any_def isConstructor_def
                typeof_function)

lemma isConstructor_proxy_run:
  assumes "callable h t" "handler \<noteq> Null"
    "get h handler (Str ''getOwnPropertyDescriptor'') = Inr trap"
    "obj_at h trap = Some tf" "fcode tf = Some (Native n)"
  shows "isConstructor_any run h (Proxy t handler)
           = (case run n h handler [t, StrV ''prototype''] of
                (Inl e, h') \<Rightarrow> (Inl e, h')
              | (Inr r, h') \<Rightarrow> (trap_result h' t (Str ''prototype'') r, h'))"
proof -
  from assms(4) have "view h trap = Some tf" "trap \<noteq> Undefined" "trap \<noteq> Null"
    by (cases trap; auto simp: obj_at_def view_def split: if_split_asm cell.split_asm)+
  with assms show ?thesis
    by (simp add: isConstructor_any_def typeof_any_def hasOwn_any_def key_val_def)
qed

lemma trap_result_shown:
  assumes "view h t = Some tob" "map_of (props tob) k = Some c" "\<not> configurable c"
  shows "trap_result h t k r \<noteq> Inr False"
  using assms by (cases r) (simp_all add: trap_result_def)

text \<open>
  C8, as stated, fails on a proxy. The first proxy over the class \<open>C\<close> is callable, and
  \<open>isConstructor\<close> throws on it what its trap throws. On the second \<open>isConstructor\<close>
  answers true, and the handler's \<open>calls\<close> is 1 afterwards where it was 0: the trap has
  run.
\<close>

theorem isConstructor_proxy_trap:
  "typeof_any demo_proxy (Proxy (Ref 8) (Ref 15)) = ''function''
   \<and> isConstructor_any user demo_proxy (Proxy (Ref 8) (Ref 15))
        = (Inl (TypeError ''denied''), demo_proxy)
   \<and> fst (isConstructor_any user demo_proxy (Proxy (Ref 8) (Ref 17))) = Inr True
   \<and> get demo_proxy (Ref 17) (Str ''calls'') = Inr (NumV 0)
   \<and> get (snd (isConstructor_any user demo_proxy (Proxy (Ref 8) (Ref 17))))
          (Ref 17) (Str ''calls'')
        = Inr (NumV 1)"
  by code_simp

text \<open>
  C8, amended. On every value that is not a proxy \<open>isConstructor\<close> returns, without an
  error and in the heap it was given, and its answer is true exactly when the value is an
  object of the heap with a call behaviour whose own table lists \<open>prototype\<close>. So it is
  true of a class and of a \<open>function\<close> expression as the host makes them, false of an
  arrow function, a method and a bound function, and false of every value that is not
  callable. On a proxy whose target is not callable it is false; on a proxy without the
  trap it is the answer for the target, again without error or effect. On a callable proxy
  with the trap it runs the trap: what the trap throws is thrown, in the heap the trap
  left; what it returns is checked against the target, and when the target has its own
  \<open>prototype\<close> as a property that is not configurable (as every class and every
  \<open>function\<close> has), the answer is never false.
\<close>

theorem isConstructor_any_value:
  "isConstructor_any run h (Plain f) = (Inr (constructor_like h f), h)
   \<and> isConstructor h f = Inr (constructor_like h f)
   \<and> constructor_like h f
        = (case obj_at h f of
             None \<Rightarrow> False
           | Some ob \<Rightarrow> fcode ob \<noteq> None \<and> Str ''prototype'' \<in> set (map fst (props ob)))
   \<and> (\<forall>kind name n c.
         isConstructor (snd (new_function h kind name n c)) (fst (new_function h kind name n c))
           = Inr (kind = ClassDecl \<or> kind = FunctionExpr))
   \<and> isConstructor h Undefined = Inr False
   \<and> isConstructor h Null = Inr False
   \<and> (\<forall>b. isConstructor h (BoolV b) = Inr False)
   \<and> (\<forall>n. isConstructor h (NumV n) = Inr False)
   \<and> (\<forall>s. isConstructor h (StrV s) = Inr False)
   \<and> (\<forall>n. isConstructor h (SymV n) = Inr False)
   \<and> (\<forall>d. isConstructor h (Dsc d) = Inr False)
   \<and> (\<not> callable h t \<longrightarrow> isConstructor_any run h (Proxy t handler) = (Inr False, h))
   \<and> (callable h t \<and> handler \<noteq> Null
        \<and> get h handler (Str ''getOwnPropertyDescriptor'') = Inr Undefined \<longrightarrow>
          isConstructor_any run h (Proxy t handler) = (Inr (constructor_like h t), h))
   \<and> (callable h t \<and> handler \<noteq> Null
        \<and> get h handler (Str ''getOwnPropertyDescriptor'') = Inr trap
        \<and> obj_at h trap = Some tf \<and> fcode tf = Some (Native m) \<longrightarrow>
          (\<forall>e h'. run m h handler [t, StrV ''prototype''] = (Inl e, h') \<longrightarrow>
              isConstructor_any run h (Proxy t handler) = (Inl e, h'))
        \<and> (\<forall>r h'. run m h handler [t, StrV ''prototype''] = (Inr r, h') \<longrightarrow>
              isConstructor_any run h (Proxy t handler)
                = (trap_result h' t (Str ''prototype'') r, h')
              \<and> (\<forall>tob c. view h' t = Some tob
                      \<and> map_of (props tob) (Str ''prototype'') = Some c
                      \<and> \<not> configurable c \<longrightarrow>
                    fst (isConstructor_any run h (Proxy t handler)) \<noteq> Inr False)))"
proof -
  have plain: "isConstructor_any run h (Plain f) = (Inr (constructor_like h f), h)"
    by (simp add: isConstructor_plain isConstructor_eq)
  have kinds: "\<forall>kind name n c.
         isConstructor (snd (new_function h kind name n c)) (fst (new_function h kind name n c))
           = Inr (kind = ClassDecl \<or> kind = FunctionExpr)"
    by (simp add: isConstructor_eq new_function_constructor_like)
  have prims: "isConstructor h Undefined = Inr False" "isConstructor h Null = Inr False"
    "\<forall>b. isConstructor h (BoolV b) = Inr False" "\<forall>n. isConstructor h (NumV n) = Inr False"
    "\<forall>s. isConstructor h (StrV s) = Inr False" "\<forall>n. isConstructor h (SymV n) = Inr False"
    "\<forall>d. isConstructor h (Dsc d) = Inr False"
    by (simp_all add: isConstructor_eq constructor_like_def callable_def view_def dsc_view_def)
  have inert: "\<not> callable h t \<longrightarrow> isConstructor_any run h (Proxy t handler) = (Inr False, h)"
    by (simp add: isConstructor_proxy_inert)
  have bare: "callable h t \<and> handler \<noteq> Null
        \<and> get h handler (Str ''getOwnPropertyDescriptor'') = Inr Undefined \<longrightarrow>
          isConstructor_any run h (Proxy t handler) = (Inr (constructor_like h t), h)"
    by (simp add: isConstructor_proxy_plain)
  have trapped: "(\<forall>e h'. run m h handler [t, StrV ''prototype''] = (Inl e, h') \<longrightarrow>
              isConstructor_any run h (Proxy t handler) = (Inl e, h'))
        \<and> (\<forall>r h'. run m h handler [t, StrV ''prototype''] = (Inr r, h') \<longrightarrow>
              isConstructor_any run h (Proxy t handler)
                = (trap_result h' t (Str ''prototype'') r, h')
              \<and> (\<forall>tob c. view h' t = Some tob
                      \<and> map_of (props tob) (Str ''prototype'') = Some c
                      \<and> \<not> configurable c \<longrightarrow>
                    fst (isConstructor_any run h (Proxy t handler)) \<noteq> Inr False))"
    if "callable h t \<and> handler \<noteq> Null
        \<and> get h handler (Str ''getOwnPropertyDescriptor'') = Inr trap
        \<and> obj_at h trap = Some tf \<and> fcode tf = Some (Native m)"
  proof -
    from that have r: "isConstructor_any run h (Proxy t handler)
           = (case run m h handler [t, StrV ''prototype''] of
                (Inl e, h') \<Rightarrow> (Inl e, h')
              | (Inr r, h') \<Rightarrow> (trap_result h' t (Str ''prototype'') r, h'))"
      by (intro isConstructor_proxy_run[where tf=tf and trap=trap]) simp_all
    show ?thesis unfolding r by (auto simp: trap_result_shown)
  qed
  from plain kinds prims inert bare trapped show ?thesis
    by (simp only: isConstructor_eq constructor_like_cell [symmetric] simp_thms) blast
qed

theorem isConstructor_any_value_witness:
  "isConstructor_any user demo_proxy (Plain (Ref 8)) = (Inr True, demo_proxy)
   \<and> isConstructor_any user demo_proxy (Plain (Ref 10)) = (Inr False, demo_proxy)
   \<and> \<not> callable demo_proxy (Ref 12)
   \<and> isConstructor_any user demo_proxy (Proxy (Ref 12) (Ref 15)) = (Inr False, demo_proxy)
   \<and> callable demo_proxy (Ref 8)
   \<and> get demo_proxy (Ref 13) (Str ''getOwnPropertyDescriptor'') = Inr Undefined
   \<and> isConstructor_any user demo_proxy (Proxy (Ref 8) (Ref 13)) = (Inr True, demo_proxy)
   \<and> get demo_proxy (Ref 15) (Str ''getOwnPropertyDescriptor'') = Inr (Ref 16)
   \<and> user 7 demo_proxy (Ref 15) [Ref 8, StrV ''prototype'']
        = (Inl (TypeError ''denied''), demo_proxy)
   \<and> isConstructor_any user demo_proxy (Proxy (Ref 8) (Ref 15))
        = (Inl (TypeError ''denied''), demo_proxy)"
proof -
  have c8: "constructor_like demo_proxy (Ref 8)"
    and c10: "\<not> constructor_like demo_proxy (Ref 10)"
    and n12: "\<not> callable demo_proxy (Ref 12)"
    and f8: "callable demo_proxy (Ref 8)"
    and g13: "get demo_proxy (Ref 13) (Str ''getOwnPropertyDescriptor'') = Inr Undefined"
    and g15: "get demo_proxy (Ref 15) (Str ''getOwnPropertyDescriptor'') = Inr (Ref 16)"
    and u7: "user 7 demo_proxy (Ref 15) [Ref 8, StrV ''prototype'']
               = (Inl (TypeError ''denied''), demo_proxy)"
    by code_simp+
  have "case obj_at demo_proxy (Ref 16) of
          Some ob \<Rightarrow> fcode ob = Some (Native 7) | None \<Rightarrow> False"
    by code_simp
  then obtain tf where tf: "obj_at demo_proxy (Ref 16) = Some tf" "fcode tf = Some (Native 7)"
    by (auto split: option.split_asm)
  note A = isConstructor_any_value[where run=user and h=demo_proxy and f="Ref 8"
             and t="Ref 12" and handler="Ref 15"]
  note B = isConstructor_any_value[where run=user and h=demo_proxy and f="Ref 10"
             and t="Ref 8" and handler="Ref 13"]
  note C = isConstructor_any_value[where run=user and h=demo_proxy and f="Ref 10"
             and t="Ref 8" and handler="Ref 15" and trap="Ref 16" and tf=tf and m=7]
  from A c8 have 1: "isConstructor_any user demo_proxy (Plain (Ref 8)) = (Inr True, demo_proxy)"
    by simp
  from B c10 have 2: "isConstructor_any user demo_proxy (Plain (Ref 10))
                        = (Inr False, demo_proxy)"
    by simp
  from A n12 have 3: "isConstructor_any user demo_proxy (Proxy (Ref 12) (Ref 15))
                        = (Inr False, demo_proxy)"
    by blast
  from B f8 g13 c8 have 4: "isConstructor_any user demo_proxy (Proxy (Ref 8) (Ref 13))
                        = (Inr True, demo_proxy)"
    by simp
  from C f8 g15 tf u7 have 5: "isConstructor_any user demo_proxy (Proxy (Ref 8) (Ref 15))
        = (Inl (TypeError ''denied''), demo_proxy)"
    by blast
  from 1 2 n12 3 f8 g13 4 g15 u7 5 show ?thesis by (intro conjI)
qed

subsection \<open>Rejecting what is not a constructor\<close>

lemma verify_reject:
  "\<not> constructor_like h v \<Longrightarrow>
     verifyIsConstructor h v None = Inl (TypeError ''iface must be a constructor.'')"
  by (simp add: verifyIsConstructor_def isConstructor_eq)

lemma verify_accept:
  "constructor_like h v \<Longrightarrow> verifyIsConstructor h v None = Inr v"
  by (simp add: verifyIsConstructor_def isConstructor_eq)

lemma sealed_reject:
  "\<not> constructor_like h v \<Longrightarrow>
     sealed h v = (Inl (TypeError ''iface must be a constructor.''), h)"
  by (simp add: sealed_def verify_reject andThen_def lift_def)

lemma restrict_reject:
  assumes "\<not> constructor_like (heap w) v" "typeof (heap w) v \<noteq> ''object''"
    "v \<notin> set (restrictMap w)"
  shows "\<exists>w'. restrict w v e = Some (Inl (TypeError ''iface must be a constructor.''), w')
          \<and> restrictMap w' = restrictMap w
          \<and> take (length (heap w)) (heap w') = heap w"
proof -
  have nc: "\<not> constructor_like (heap w @ [Obj (empty_obj ObjectPrototype)]) v"
    using assms(1)
    by (cases v)
       (auto simp: constructor_like_def callable_def own_key_def view_def nth_append
                   empty_obj_def split: if_splits)
  show ?thesis
    using assms nc
    by (auto simp: restrict_def restrict_class_def alloc_def verify_reject andThen_def
                   lift_def in_world_def Let_def)
qed

lemma restrict_options:
  assumes "typeof (heap w) v = ''object''"
  shows "\<exists>f w'. restrict w v e = Some (Inr f, w')
          \<and> restrictMap w' = restrictMap w
          \<and> take (length (heap w)) (heap w') = heap w
          \<and> (\<forall>c. \<not> constructor_like (heap w') c \<longrightarrow>
                 call_decorator w' f c
                   = Some (Inl (TypeError ''iface must be a constructor.''), w'))"
  using assms
  by (auto simp: restrict_def new_function_def Let_def in_world_def call_decorator_def
                 view_def nth_append verify_reject)

text \<open>
  C4. \<open>null\<close> is not constructor-like, and it is no options object either; \<open>sealed\<close>
  throws the TypeError on it. \<open>restrict(null)\<close> throws nothing: \<open>typeof null\<close> is
  \<open>'object'\<close>, so the call is taken for the options-only call and returns a function.
  That function, given the class \<open>C\<close>, fails inside \<open>restrict\<close> on
  \<open>hasOwn(null, 'name')\<close>. For every other value that is not constructor-like the
  lemmas above give what the claim says: \<open>sealed\<close> and \<open>restrict\<close> throw
  \<open>iface must be a constructor.\<close> and leave the cells of the heap as they were, and the
  function that the options-only call returns throws the same on what is not constructor-like.
\<close>

theorem restrict_null_returns_decorator:
  "\<not> constructor_like (heap demo_world) Null
   \<and> sealed (heap demo_world) Null
        = (Inl (TypeError ''iface must be a constructor.''), heap demo_world)
   \<and> (case restrict demo_world Null Undefined of
         Some (Inr f, w) \<Rightarrow>
           typeof (heap w) f = ''function''
           \<and> call_decorator w f (Ref 8)
                = Some (Inl (TypeError ''Cannot convert undefined or null to object''), w)
       | _ \<Rightarrow> False)"
  by code_simp

subsection \<open>The iterator of propertiesOf\<close>

lemma get_own_data:
  "h ! r = Obj ob \<Longrightarrow> r < length h \<Longrightarrow> map_of (props ob) k = Some (Data v w e c) \<Longrightarrow>
     get h (Ref r) k = Inr v"
  by (simp add: get_def to_object_def view_def)

lemma map_of_put:
  "map_of (map (\<lambda>(k', d). if k' = k then (k', f d) else (k', d)) ps) k'
     = (if k' = k then map_option f (map_of ps k) else map_of ps k')"
  by (induction ps) auto

lemma iter_okD:
  assumes "iter_ok h it"
  shows "\<exists>r ob d e c a w' e' c' xs fr.
    result it = Ref r \<and> r < length h \<and> h ! r = Obj ob
    \<and> map_of (props ob) (Str ''done'') = Some (Data d True e c)
    \<and> map_of (props ob) (Str ''value'') = Some (Data (Ref a) w' e' c')
    \<and> (index it < length (names it) \<longrightarrow> d = BoolV False)
    \<and> a < length h \<and> a \<noteq> r \<and> target it \<noteq> Ref a \<and> h ! a = Arr xs fr
    \<and> (fr \<longrightarrow> length (names it) \<le> index it \<and> xs = [])"
proof -
  from assms obtain r where r: "result it = Ref r" "r < length h"
    by (auto simp: iter_ok_def split: val.split_asm)
  with assms obtain ob where ob: "h ! r = Obj ob"
    by (auto simp: iter_ok_def split: cell.split_asm)
  with assms r obtain d w e c a w' e' c' where p:
    "map_of (props ob) (Str ''done'') = Some (Data d w e c)"
    "map_of (props ob) (Str ''value'') = Some (Data (Ref a) w' e' c')"
    by (auto simp: iter_ok_def split: option.split_asm desc.split_asm val.split_asm)
  with assms r ob have q: "w" "index it < length (names it) \<longrightarrow> d = BoolV False"
    "a < length h" "a \<noteq> r" "target it \<noteq> Ref a"
    by (auto simp: iter_ok_def)
  from assms r ob p obtain xs fr where x: "h ! a = Arr xs fr"
    "fr \<longrightarrow> length (names it) \<le> index it \<and> xs = []"
    by (auto simp: iter_ok_def split: cell.split_asm)
  from r ob p q x show ?thesis by auto
qed

lemma iter_okI:
  assumes "result it = Ref r" "r < length h" "h ! r = Obj ob"
    "map_of (props ob) (Str ''done'') = Some (Data d True e c)"
    "map_of (props ob) (Str ''value'') = Some (Data (Ref a) w' e' c')"
    "index it < length (names it) \<longrightarrow> d = BoolV False"
    "a < length h" "a \<noteq> r" "target it \<noteq> Ref a" "h ! a = Arr xs fr"
    "fr \<longrightarrow> length (names it) \<le> index it \<and> xs = []"
  shows "iter_ok h it"
  using assms unfolding iter_ok_def by auto

lemma gopd_frame:
  "length h' = length h \<Longrightarrow> (\<forall>b. v = Ref b \<longrightarrow> h' ! b = h ! b) \<Longrightarrow>
     getOwnPropertyDescriptor h' v k = getOwnPropertyDescriptor h v k"
  by (cases v) (auto simp: getOwnPropertyDescriptor_def view_def)

lemma two_elements: "length ys = 2 \<Longrightarrow> ys[0 := x, Suc 0 := y] = [x, y]"
  by (cases ys; cases "tl ys") auto

lemma next_step:
  assumes ok: "iter_ok h it" and more: "index it < length (names it)"
  shows "\<exists>h'. iter_next h it = (Inr (result it, it\<lparr>index := Suc (index it)\<rparr>), h')
           \<and> iter_ok h' (it\<lparr>index := Suc (index it)\<rparr>)
           \<and> observed h' (result it)
               = (Inr (BoolV False),
                  Some ([key_val (names it ! index it),
                         getOwnPropertyDescriptor h (target it) (names it ! index it)], False))
           \<and> length h' = length h
           \<and> iter_cells h' (it\<lparr>index := Suc (index it)\<rparr>) = iter_cells h it
           \<and> (\<forall>b. b \<notin> set (iter_cells h it) \<longrightarrow> h' ! b = h ! b)"
proof -
  from iter_okD[OF ok] obtain r ob d e c a w' e' c' xs fr where f:
    "result it = Ref r" "r < length h" "h ! r = Obj ob"
    "map_of (props ob) (Str ''done'') = Some (Data d True e c)"
    "map_of (props ob) (Str ''value'') = Some (Data (Ref a) w' e' c')"
    "index it < length (names it) \<longrightarrow> d = BoolV False"
    "a < length h" "a \<noteq> r" "target it \<noteq> Ref a" "h ! a = Arr xs fr"
    "fr \<longrightarrow> length (names it) \<le> index it \<and> xs = []"
    by blast
  from f more have nf: "\<not> fr" and d: "d = BoolV False" by auto
  let ?k = "names it ! index it"
  let ?d = "getOwnPropertyDescriptor h (target it) ?k"
  let ?h' = "h[a := Arr [key_val ?k, ?d] False]"
  have g: "\<And>ys. get (h[a := Arr ys False]) (Ref r) (Str ''value'') = Inr (Ref a)"
    using f by (intro get_own_data[where ob=ob]) auto
  have g0: "get h (Ref r) (Str ''value'') = Inr (Ref a)"
    using f by (intro get_own_data[where ob=ob]) auto
  have gd: "\<And>ys. getOwnPropertyDescriptor (h[a := Arr ys False]) (target it) ?k = ?d"
    using f by (intro gopd_frame) auto
  have two: "\<And>x y. (take 2 xs @ replicate (2 - length xs) Undefined)[0 := x, Suc 0 := y] = [x, y]"
    by (rule two_elements) simp
  have step: "iter_next h it = (Inr (result it, it\<lparr>index := Suc (index it)\<rparr>), ?h')"
    using f more nf g g0 gd two
    by (simp add: iter_next_def Let_def andThen_def lift_def upd_def set_length_def store_def)
  have ok': "iter_ok ?h' (it\<lparr>index := Suc (index it)\<rparr>)"
    using f d
    by (intro iter_okI[where r=r and ob=ob and a=a and d=d and fr=False
                         and xs="[key_val ?k, ?d]"]) auto
  have obs: "observed ?h' (result it) = (Inr (BoolV False), Some ([key_val ?k, ?d], False))"
    using f d g[of "[key_val ?k, ?d]"]
    by (simp add: observed_def value_array_def get_own_data[where ob=ob and h="?h'"])
  have cells: "iter_cells h it = [r, a]" "iter_cells ?h' (it\<lparr>index := Suc (index it)\<rparr>) = [r, a]"
    using f g0 g[of "[key_val ?k, ?d]"] by (simp_all add: iter_cells_def)
  have frame: "length ?h' = length h" "\<forall>b. b \<notin> set (iter_cells h it) \<longrightarrow> ?h' ! b = h ! b"
    using cells by simp_all
  from step ok' obs cells frame show ?thesis by (intro exI[of _ "?h'"]) simp
qed

lemma isFrozen_array:
  "a < length h \<Longrightarrow> h ! a = Arr xs fr \<Longrightarrow> isFrozen h (Ref a) = fr"
  by (auto simp: isFrozen_def view_def arr_view_def list_all_iff frozen_desc_def)

lemma next_done:
  assumes ok: "iter_ok h it" and fin: "length (names it) \<le> index it"
  shows "\<exists>h'. iter_next h it = (Inr (result it, it), h')
           \<and> iter_ok h' it
           \<and> observed h' (result it) = (Inr (BoolV True), Some ([], True))
           \<and> length h' = length h
           \<and> iter_cells h' it = iter_cells h it
           \<and> (\<forall>b. b \<notin> set (iter_cells h it) \<longrightarrow> h' ! b = h ! b)"
proof -
  from iter_okD[OF ok] obtain r ob d e c a w' e' c' xs fr where f:
    "result it = Ref r" "r < length h" "h ! r = Obj ob"
    "map_of (props ob) (Str ''done'') = Some (Data d True e c)"
    "map_of (props ob) (Str ''value'') = Some (Data (Ref a) w' e' c')"
    "index it < length (names it) \<longrightarrow> d = BoolV False"
    "a < length h" "a \<noteq> r" "target it \<noteq> Ref a" "h ! a = Arr xs fr"
    "fr \<longrightarrow> length (names it) \<le> index it \<and> xs = []"
    by blast
  let ?ob = "ob\<lparr>props := map (\<lambda>(k', d). if k' = Str ''done''
                 then (k', Data (BoolV True) True e c) else (k', d)) (props ob)\<rparr>"
  let ?h1 = "h[r := Obj ?ob]"
  let ?h' = "?h1[a := Arr [] True]"
  have pd: "map_of (props ?ob) (Str ''done'') = Some (Data (BoolV True) True e c)"
    and pv: "map_of (props ?ob) (Str ''value'') = Some (Data (Ref a) w' e' c')"
    using f by (simp_all add: map_of_put[where f="\<lambda>d. Data (BoolV True) True e c"])
  have put: "put h (Ref r) (Str ''done'') (BoolV True) = Inr ?h1"
    using f by (simp add: put_def)
  have g1: "\<And>ys b. get (?h1[a := Arr ys b]) (Ref r) (Str ''value'') = Inr (Ref a)"
    using f pv by (intro get_own_data[where ob="?ob"]) auto
  have g0: "get ?h1 (Ref r) (Str ''value'') = Inr (Ref a)"
    using f pv by (intro get_own_data[where ob="?ob"]) auto
  have xs: "fr \<Longrightarrow> ?h1[a := Arr xs True] = ?h'" using f by simp
  have fz: "isFrozen ?h1 (Ref a) = fr" "\<And>ys. isFrozen (?h1[a := Arr ys False]) (Ref a) = False"
    using f by (simp_all add: isFrozen_array)
  have step: "iter_next h it = (Inr (result it, it), ?h')"
  proof (cases fr)
    case True
    then have e1: "?h1 ! a = Arr [] True"
      using f by simp
    have "?h1[a := ?h1 ! a] = ?h1" by (rule list_update_id)
    then have e2: "?h' = ?h1" by (simp only: e1)
    have sl: "set_length ?h1 (Ref a) 0 = Inr ?h1"
      using e1 f by (simp add: set_length_def)
    show ?thesis
      unfolding e2
      using f(1) fin put g0 fz(1) True sl
      by (simp add: iter_next_def andThen_def lift_def upd_def)
  next
    case False
    then show ?thesis
      using f fin put g0 g1 fz
      by (simp add: iter_next_def andThen_def lift_def upd_def set_length_def freeze_def)
  qed
  have ok': "iter_ok ?h' it"
    using f fin pd pv
    by (intro iter_okI[where r=r and ob="?ob" and a=a and d="BoolV True" and fr=True
                         and xs="[]"]) auto
  have gd: "get ?h' (Ref r) (Str ''done'') = Inr (BoolV True)"
    using f pd by (intro get_own_data[where ob="?ob"]) auto
  have obs: "observed ?h' (result it) = (Inr (BoolV True), Some ([], True))"
    using f gd g1[of "[]" True] by (simp add: observed_def value_array_def)
  have gv: "get h (Ref r) (Str ''value'') = Inr (Ref a)"
    using f by (intro get_own_data[where ob=ob]) auto
  have cells: "iter_cells h it = [r, a]" "iter_cells ?h' it = [r, a]"
    using f gv g1[of "[]" True] by (simp_all add: iter_cells_def)
  have frame: "length ?h' = length h" "\<forall>b. b \<notin> set (iter_cells h it) \<longrightarrow> ?h' ! b = h ! b"
    using cells by simp_all
  from step ok' obs cells frame show ?thesis by (intro exI[of _ "?h'"]) simp
qed

lemma view_append: "view h v \<noteq> None \<Longrightarrow> view (h @ x) v = view h v"
  by (cases v) (auto simp: view_def nth_append split: if_splits)

lemma Object_of_props:
  assumes "Object_of h v = (ob, h1)"
  shows "view h1 ob = Some (case to_object h v of Some t \<Rightarrow> t | None \<Rightarrow> empty_obj ObjectPrototype)"
    and "take (length h) h1 = h" and "\<exists>b. (ob = Ref b \<and> b < length h1) \<or> (\<exists>d. ob = Dsc d)"
    and "view h v \<noteq> None \<Longrightarrow> ob = v"
  using assms
  by (cases v; auto simp: Object_of_def alloc_def to_object_def view_def split: option.splits if_splits)+

lemma propertiesOf_start:
  assumes "propertiesOf h v = (it, h0)"
  shows "iter_ok h0 it \<and> index it = 0 \<and> take (length h) h0 = h
     \<and> view h0 (target it)
          = Some (case to_object h v of Some t \<Rightarrow> t | None \<Rightarrow> empty_obj ObjectPrototype)
     \<and> names it = getOwnPropertyNames h0 (target it) @ getOwnPropertySymbols h0 (target it)"
proof -
  obtain ob h1 where o: "Object_of h v = (ob, h1)" by (cases "Object_of h v")
  note p = Object_of_props[OF o]
  let ?a = "length h1"
  let ?h0 = "h1 @ [Arr [] False, Obj (result_obj (Ref ?a) False)]"
  from assms o have it: "it = \<lparr> target = ob,
        names = getOwnPropertyNames h1 ob @ getOwnPropertySymbols ?h0 ob,
        index = 0, result = Ref (Suc ?a) \<rparr>" and h0: "h0 = ?h0"
    by (auto simp: propertiesOf_def alloc_def Let_def)
  have v: "view ?h0 ob = view h1 ob" using p(1) by (simp add: view_append)
  have ne: "ob \<noteq> Ref ?a" using p(3) by auto
  have ok: "iter_ok ?h0 it"
    using ne
    by (intro iter_okI[where r="Suc ?a" and a="?a" and d="BoolV False" and fr=False
                         and xs="[]" and ob="result_obj (Ref ?a) False"])
       (auto simp: it nth_append result_obj_def)
  have tk: "take (length h) ?h0 = h"
    using p(2) by (metis append_eq_conv_conj append_take_drop_id append.assoc)
  have nm: "names it = getOwnPropertyNames ?h0 ob @ getOwnPropertySymbols ?h0 ob"
    using v by (simp add: it getOwnPropertyNames_def getOwnPropertySymbols_def)
  from ok tk nm v p(1) show ?thesis by (simp add: h0 it)
qed

lemma iter_ok_frame:
  assumes "iter_ok h it" "length h \<le> length h'" "\<forall>b \<in> set (iter_cells h it). h' ! b = h ! b"
  shows "iter_ok h' it"
proof -
  from iter_okD[OF assms(1)] obtain r ob d e c a w' e' c' xs fr where f:
    "result it = Ref r" "r < length h" "h ! r = Obj ob"
    "map_of (props ob) (Str ''done'') = Some (Data d True e c)"
    "map_of (props ob) (Str ''value'') = Some (Data (Ref a) w' e' c')"
    "index it < length (names it) \<longrightarrow> d = BoolV False"
    "a < length h" "a \<noteq> r" "target it \<noteq> Ref a" "h ! a = Arr xs fr"
    "fr \<longrightarrow> length (names it) \<le> index it \<and> xs = []"
    by blast
  have "get h (Ref r) (Str ''value'') = Inr (Ref a)"
    using f by (intro get_own_data[where ob=ob]) auto
  then have "iter_cells h it = [r, a]" using f by (simp add: iter_cells_def)
  with assms(3) have "h' ! r = h ! r" "h' ! a = h ! a" by auto
  with f assms(2) show ?thesis
    by (intro iter_okI[where r=r and ob=ob and a=a and d=d and fr=fr and xs=xs]) auto
qed



lemma iter_cells_ok:
  assumes "iter_ok h it"
  shows "\<exists>r a. result it = Ref r \<and> iter_cells h it = [r, a] \<and> r < length h \<and> a < length h"
proof -
  from iter_okD[OF assms] obtain r ob d e c a w' e' c' xs fr where f:
    "result it = Ref r" "r < length h" "h ! r = Obj ob"
    "map_of (props ob) (Str ''value'') = Some (Data (Ref a) w' e' c')" "a < length h"
    by blast
  have "get h (Ref r) (Str ''value'') = Inr (Ref a)"
    using f by (intro get_own_data[where ob=ob]) auto
  with f show ?thesis by (simp add: iter_cells_def)
qed

lemma iter_cells_value:
  "result it = Ref r \<Longrightarrow> iter_cells h it = [r, a] \<Longrightarrow>
     get h (Ref r) (Str ''value'') = Inr (Ref a)"
  by (auto simp: iter_cells_def split: sum.split_asm val.split_asm)

lemma observed_cell:
  assumes "observed h (Ref r) = (d, Some (xs, fr))" "get h (Ref r) (Str ''value'') = Inr (Ref a)"
  shows "h ! a = Arr xs fr \<and> get h (Ref r) (Str ''done'') = d"
  using assms
  by (auto simp: observed_def value_array_def split: if_split_asm cell.split_asm)




subsection \<open>sealed\<close>

lemma callable_ordinary:
  "callable h v \<Longrightarrow> \<exists>a ob. v = Ref a \<and> a < length h \<and> h ! a = Obj ob \<and> fcode ob \<noteq> None"
  by (cases v)
     (auto simp: callable_def view_def arr_view_def dsc_view_def split: if_split_asm cell.split_asm)

lemma obj_atD:
  "obj_at h v = Some ob \<Longrightarrow> \<exists>a. v = Ref a \<and> a < length h \<and> h ! a = Obj ob"
  by (cases v) (auto simp: obj_at_def split: cell.split_asm if_split_asm)

lemma obj_atI: "a < length h \<Longrightarrow> h ! a = Obj ob \<Longrightarrow> obj_at h (Ref a) = Some ob"
  by (simp add: obj_at_def)

lemma obj_at_view: "obj_at h v = Some ob \<Longrightarrow> view h v = Some ob"
  by (auto dest!: obj_atD simp: view_def)


lemma map_of_set_prop: "map_of (set_prop k d ps) k' = (if k' = k then Some d else map_of ps k')"
  by (induction ps) auto




lemma gopd_obj:
  "a < length h \<Longrightarrow> h ! a = Obj ob \<Longrightarrow>
     getOwnPropertyDescriptor h (Ref a) k
       = (case map_of (props ob) k of None \<Rightarrow> Undefined | Some d \<Rightarrow> Dsc d)"
  by (simp add: getOwnPropertyDescriptor_def view_def)





subsection \<open>restrict on particular classes\<close>

text \<open>Nothing in \<open>restrict\<close> writes to the registry.\<close>

lemma restrict_keeps_registry:
  "restrict w C E = Some (r, w') \<Longrightarrow> restrictMap w' = restrictMap w"
  by (auto simp: restrict_def in_world_def Let_def split: if_split_asm prod.split_asm)

text \<open>
  C1. The registry is read and never written: after \<open>restrict(C, {exclude: ['m']})\<close>
  it is still empty, and the method \<open>m\<close> is as it was. A second call,
  \<open>restrict(C)\<close>, therefore processes the class again: it returns \<open>C\<close>, and
  \<open>m\<close> is now locked and wrapped in a guard made by that second call.
\<close>

theorem restrict_twice_reprocesses:
  "(case restrict demo_world (Ref 8) (Ref 13) of
      Some (Inr v, w1) \<Rightarrow>
        v = Ref 8 \<and> restrictMap w1 = []
        \<and> getOwnPropertyDescriptor (heap w1) (Ref 9) (Str ''m'')
             = Dsc (Data (Ref 10) True False True)
        \<and> (case restrict w1 (Ref 8) Undefined of
              Some (Inr v', w2) \<Rightarrow>
                v' = Ref 8
                \<and> getOwnPropertyDescriptor (heap w2) (Ref 9) (Str ''m'')
                     = Dsc (Data (Ref (length (heap w1) + 3)) False False False)
                \<and> fcode (the (obj_at (heap w2) (Ref (length (heap w1) + 3))))
                     = Some (Guard (Ref 8) (StrV ''m'') (Ref 10))
            | _ \<Rightarrow> False)
    | _ \<Rightarrow> False)"
  by code_simp

text \<open>
  C2. Two classes on which \<open>restrict\<close> leaves a configurable, not excluded property
  of the prototype as it was. A method named \<open>__proto__\<close>: the call completes, and
  the property is still configurable and writable. A getter under a symbol: the call
  throws while it builds the name \<open>'get ' + prop\<close>, before anything is locked, so
  \<open>m\<close> and the static \<open>name\<close> are still configurable.
\<close>

theorem restrict_misses_proto_and_symbol_accessor:
  "(case restrict demo_proto (Ref 8) Undefined of
      Some (Inr v, w) \<Rightarrow>
        v = Ref 8
        \<and> getOwnPropertyDescriptor (heap demo_proto) (Ref 9) (Str ''__proto__'')
             = Dsc (Data (Ref 10) True False True)
        \<and> getOwnPropertyDescriptor (heap w) (Ref 9) (Str ''__proto__'')
             = Dsc (Data (Ref 10) True False True)
    | _ \<Rightarrow> False)
   \<and> (case restrict demo_symget (Ref 8) Undefined of
      Some (Inl e, w) \<Rightarrow>
        e = TypeError ''Cannot convert a Symbol value to a string''
        \<and> getOwnPropertyDescriptor (heap w) (Ref 9) (Str ''m'')
             = Dsc (Data (Ref 10) True False True)
        \<and> getOwnPropertyDescriptor (heap w) (Ref 8) (Str ''name'')
             = Dsc (Data (StrV ''S'') False False True)
    | _ \<Rightarrow> False)"
  by code_simp

text \<open>
  C3. After \<open>restrict(C)\<close>, the guard of the method under a symbol, called on an
  object that is not an instance, throws the TypeError of the failed conversion of the
  symbol to a string: the message names neither the property nor the interface. Called on
  an instance it forwards. The guard of the method \<open>m\<close> throws the TypeError that
  names \<open>m\<close> and \<open>C\<close>, and forwards on an instance.
\<close>

theorem guard_on_symbol_key:
  "(case restrict demo_world (Ref 8) Undefined of
      Some (Inr v, w) \<Rightarrow>
        (case (getOwnPropertyDescriptor (heap w) (Ref 9) (Sym 2),
               getOwnPropertyDescriptor (heap w) (Ref 9) (Str ''m'')) of
           (Dsc (Data gs ws es cs), Dsc (Data gm wm em cm)) \<Rightarrow>
             fst (call (heap w) gs (Ref 0) [])
               = Throws (TypeError ''Cannot convert a Symbol value to a string'')
             \<and> fst (call (heap w) gs (Ref 12) [NumV 1]) = Forwards (Ref 10) (Ref 12) [NumV 1]
             \<and> fst (call (heap w) gm (Ref 0) [])
               = Throws (TypeError
                   (CHR 0x27 # ''m'' @ CHR 0x27
                      # '' called on an object that does not implement interface C.''))
             \<and> fst (call (heap w) gm (Ref 12) [NumV 1]) = Forwards (Ref 10) (Ref 12) [NumV 1]
         | _ \<Rightarrow> False)
    | _ \<Rightarrow> False)"
  by code_simp

text \<open>
  C5. A prototype whose \<open>constructor\<close> is an accessor property: \<open>restrict\<close> wraps
  its setter in a guard, since only the branch for data properties leaves
  \<open>constructor\<close> out. The static property \<open>s\<close>, a function, is locked and not
  wrapped.
\<close>

theorem restrict_wraps_accessor_constructor:
  "(case restrict demo_ctor (Ref 8) Undefined of
      Some (Inr v, w) \<Rightarrow>
        v = Ref 8
        \<and> getOwnPropertyDescriptor (heap demo_ctor) (Ref 9) (Str ''constructor'')
             = Dsc (Accessor Undefined (Ref 10) False True)
        \<and> getOwnPropertyDescriptor (heap w) (Ref 9) (Str ''constructor'')
             = Dsc (Accessor Undefined (Ref 16) False False)
        \<and> fcode (the (obj_at (heap w) (Ref 16)))
             = Some (Guard Undefined (StrV ''set constructor'') (Ref 10))
        \<and> getOwnPropertyDescriptor (heap w) (Ref 8) (Str ''s'')
             = Dsc (Data (Ref 11) False False False)
    | _ \<Rightarrow> False)"
  by code_simp

text \<open>
  C6, as stated, fails where the prototype has its own type tag as a configurable data
  property: \<open>restrict\<close> does not redefine it, but locks it like any other property.
\<close>

theorem restrict_locks_existing_tag:
  "(case restrict demo_tag (Ref 8) Undefined of
      Some (Inr v, w) \<Rightarrow>
        v = Ref 8
        \<and> getOwnPropertyDescriptor (heap demo_tag) (Ref 9) toStringTag
             = Dsc (Data (StrV ''X'') True True True)
        \<and> getOwnPropertyDescriptor (heap w) (Ref 9) toStringTag
             = Dsc (Data (StrV ''X'') False False False)
    | _ \<Rightarrow> False)"
  by code_simp

subsection \<open>The loop of restrictProperties\<close>

lemma validateInterface_grows:
  "validateInterface h iface prop original = (r, h') \<Longrightarrow>
     \<exists>xs. h' = h @ xs \<and> (\<forall>f. r = Inr f \<longrightarrow> \<not> primitive f)"
  by (auto simp: validateInterface_def new_function_def Let_def primitive_def
           split: if_split_asm cell.split_asm prod.split_asm)

lemma andThen_cases:
  "andThen m f = (r, h') \<Longrightarrow>
     (\<exists>e. m = (Inl e, h') \<and> r = Inl e) \<or> (\<exists>x h1. m = (Inr x, h1) \<and> f x h1 = (r, h'))"
  by (cases m; cases "fst m") (auto simp: andThen_def)

lemma wrap_accessor_grows:
  assumes "wrap_accessor h object kind prop f = (r, h')"
  shows "\<exists>xs. h' = h @ xs"
proof (cases "truthy f")
  case False
  with assms show ?thesis by (simp add: wrap_accessor_def)
next
  case True
  with assms have "andThen (lift h (get h object (Str ''constructor''))) (\<lambda>iface h.
           andThen (lift h (concat_str kind prop)) (\<lambda>name h.
             validateInterface h iface (StrV name) f)) = (r, h')"
    by (simp add: wrap_accessor_def)
  then show ?thesis
    by (auto dest!: andThen_cases validateInterface_grows simp: lift_def)
qed

lemma typeof_function_not_primitive: "typeof h v = ''function'' \<Longrightarrow> \<not> primitive v"
  by (cases v) (auto simp: typeof_def primitive_def)

lemma andThen_lift [simp]:
  "andThen (lift h (Inr x)) f = f x h" "andThen (lift h (Inl e)) f = (Inl e, h)"
  by (simp_all add: andThen_def lift_def)

lemma restrict_one_result:
  assumes "restrict_one h object isCons exceptFor prop descriptor = (r, h')"
  shows "(\<exists>xs. h' = h @ xs)
       \<and> (r = Inr None \<longrightarrow> h' = h)
       \<and> (\<forall>d'. r = Inr (Some d') \<longrightarrow>
             (\<exists>d. descriptor = Dsc d \<and> configurable d \<and> lockrel isCons prop d d'))"
proof (cases "excluded h exceptFor prop")
  case (Inl e)
  with assms show ?thesis by (auto simp: restrict_one_def)
next
  case (Inr skip)
  note b = assms[unfolded restrict_one_def Inr andThen_lift]
  show ?thesis
  proof (cases "skip \<or> (\<forall>d. descriptor \<noteq> Dsc d)")
    case True
    with b show ?thesis by (cases descriptor) (auto split: if_split_asm)
  next
    case False
    then obtain d where d: "\<not> skip" "descriptor = Dsc d" by auto
    show ?thesis
    proof (cases "configurable d")
      case False
      with b d show ?thesis by auto
    next
      case cf: True
      show ?thesis
      proof (cases d)
        case (Data v w e c)
        show ?thesis
        proof (cases "\<not> isCons \<and> typeof h v = ''function'' \<and> prop \<noteq> StrV ''constructor''")
          case True
          with b d cf Data have
            "andThen (lift h (get h object (Str ''constructor''))) (\<lambda>iface h.
               andThen (validateInterface h iface prop v) (\<lambda>f h.
                 (Inr (Some (Data f False False False)), h))) = (r, h')"
            by simp
          then show ?thesis
            using True d cf Data
            by (auto dest!: andThen_cases validateInterface_grows
                     simp: lift_def lockrel_def typeof_function_not_primitive)
        next
          case False
          with b d cf Data have "r = Inr (Some (Data v False False False))" "h' = h"
            by auto
          then show ?thesis using d cf Data by (simp add: lockrel_def)
        qed
      next
        case (Accessor g s e c)
        show ?thesis
        proof (cases isCons)
          case True
          with b d cf Accessor have "r = Inr (Some (Accessor g s False False))" "h' = h"
            by auto
          then show ?thesis using d cf Accessor by (simp add: lockrel_def)
        next
          case False
          with b d cf Accessor have
            "andThen (wrap_accessor h object ''get '' prop g) (\<lambda>g' h.
               andThen (wrap_accessor h object ''set '' prop s) (\<lambda>s' h.
                 (Inr (Some (Accessor g' s' False False)), h))) = (r, h')"
            by simp
          then show ?thesis
            using False d cf Accessor
            by (auto dest!: andThen_cases wrap_accessor_grows simp: lockrel_def)
        qed
      qed
    qed
  qed
qed

lemma iter_frame:
  assumes "iter_ok h it" "iter_cells h it = [r, arr]" "length h \<le> length h'"
    "h' ! r = h ! r" "h' ! arr = h ! arr"
  shows "iter_ok h' it \<and> iter_cells h' it = [r, arr]"
proof -
  from assms have ok: "iter_ok h' it" by (intro iter_ok_frame[of h it h']) auto
  from iter_cells_ok[OF assms(1)] assms(2) have r: "result it = Ref r" "r < length h" by auto
  from iter_okD[OF assms(1)] r obtain ob a w' e' c' where f:
    "h ! r = Obj ob" "map_of (props ob) (Str ''value'') = Some (Data (Ref a) w' e' c')"
    by auto
  then have "get h (Ref r) (Str ''value'') = Inr (Ref a)"
    using r by (intro get_own_data[where ob=ob]) auto
  with assms(2) r have "a = arr" by (simp add: iter_cells_def)
  with f assms r have "get h' (Ref r) (Str ''value'') = Inr (Ref arr)"
    by (intro get_own_data[where ob=ob]) auto
  with r ok show ?thesis by (simp add: iter_cells_def)
qed

lemma set_prop_fst: "set (map fst (set_prop k d ps)) = insert k (set (map fst ps))"
  by (induction ps) auto

lemma set_prop_distinct: "distinct (map fst ps) \<Longrightarrow> distinct (map fst (set_prop k d ps))"
proof (induction ps)
  case Nil
  then show ?case by simp
next
  case (Cons p ps)
  have "fst p \<noteq> k \<Longrightarrow> fst p \<notin> fst ` set (set_prop k d ps)"
    using Cons.prems set_prop_fst[of k d ps] by simp
  with Cons show ?case by auto
qed

lemma set_prop_set: "set (set_prop k d ps) \<subseteq> insert (k, d) (set ps)"
  by (induction ps) auto

lemma ds_ok_assign:
  assumes "ds_ok isCons ob ds" "map_of (props ob) k = Some d" "configurable d"
    "lockrel isCons (key_val k) d d'"
  shows "ds_ok isCons ob (assign ds k d')"
proof (cases "k = Str ''__proto__''")
  case True
  with assms(1) show ?thesis by (simp add: assign_def)
next
  case False
  have "\<forall>p \<in> set (set_prop k d' ds). p = (k, d') \<or> p \<in> set ds"
    using set_prop_set[of k d' ds] by auto
  with assms False show ?thesis
    by (auto simp: ds_ok_def assign_def set_prop_distinct list_all_iff)
qed

lemma element_array:
  "a < length h \<Longrightarrow> h ! a = Arr xs fr \<Longrightarrow>
     element h (Ref a) i = Inr (if i < length xs then xs ! i else Undefined)"
  by (simp add: element_def)

lemma val_key_key_val [simp]: "val_key (key_val k) = Some k"
  by (cases k) (simp_all add: val_key_def key_val_def)

lemma view_mono:
  assumes "view h v = Some ob" "length h \<le> length g" "\<forall>b<length h. g ! b = h ! b"
  shows "view g v = Some ob"
  using assms by (cases v) (auto simp: view_def split: if_split_asm)

lemma to_object_mono:
  assumes "to_object h v = Some ob" "length h \<le> length g" "\<forall>b<length h. g ! b = h ! b"
  shows "to_object g v = Some ob"
  using assms view_mono[of h v ob g] by (cases v) (auto simp: to_object_def)

lemma get_chain_mono:
  assumes "get_chain h n ob k = Inr x" "n \<le> m" "length h \<le> length g"
    "\<forall>b<length h. g ! b = h ! b"
  shows "get_chain g m ob k = Inr x"
  using assms(1,2)
proof (induction n arbitrary: m ob)
  case 0
  then show ?case by simp
next
  case (Suc n)
  then obtain m' where m: "m = Suc m'" "n \<le> m'" by (cases m) auto
  show ?case
  proof (cases "map_of (props ob) k")
    case (Some d)
    with Suc.prems(1) m show ?thesis by (cases d) (auto split: if_split_asm)
  next
    case None
    show ?thesis
    proof (cases "proto ob = Null")
      case True
      with None Suc.prems(1) m show ?thesis by simp
    next
      case False
      with None Suc.prems(1) obtain ob' where o: "view h (proto ob) = Some ob'"
        "get_chain h n ob' k = Inr x"
        by (auto split: option.split_asm)
      from view_mono[OF o(1) assms(3,4)] Suc.IH[OF o(2) m(2)] None False m
      show ?thesis by simp
    qed
  qed
qed

lemma get_mono:
  assumes "get h v k = Inr x" "length h \<le> length g" "\<forall>b<length h. g ! b = h ! b"
  shows "get g v k = Inr x"
proof -
  from assms(1) obtain ob where o: "to_object h v = Some ob"
    "get_chain h (Suc (Suc (length h))) ob k = Inr x"
    by (auto simp: get_def split: option.split_asm if_split_asm)
  have "get_chain g (Suc (Suc (length g))) ob k = Inr x"
    using assms(2) by (intro get_chain_mono[OF o(2) _ assms(2,3)]) simp
  with to_object_mono[OF o(1) assms(2,3)] show ?thesis by (simp add: get_def)
qed

lemma excluded_mono:
  assumes "excluded h ex v = Inr s" "length h \<le> length g" "\<forall>b<length h. g ! b = h ! b"
  shows "excluded g ex v = Inr s"
proof (cases "\<not> truthy ex \<or> (\<exists>str. ex = StrV str)")
  case True
  with assms(1) show ?thesis by (auto simp: excluded_def)
next
  case False
  then have t: "truthy ex" "\<forall>str. ex \<noteq> StrV str" by auto
  show ?thesis
  proof (cases "\<exists>a xs fr. ex = Ref a \<and> a < length h \<and> h ! a = Arr xs fr")
    case True
    then obtain a xs fr where a: "ex = Ref a" "a < length h" "h ! a = Arr xs fr" by blast
    with assms(2,3) have "a < length g" "g ! a = Arr xs fr" by auto
    with a assms(1) t show ?thesis by (simp add: excluded_def)
  next
    case False
    with assms(1) t have l: "get h ex (Str ''length'') = Inr Undefined" "s = False"
      by (cases ex; auto simp: excluded_def split: if_split_asm cell.split_asm sum.split_asm)+
    have nr: "\<not> (\<exists>a xs fr. ex = Ref a \<and> a < length g \<and> g ! a = Arr xs fr)"
    proof
      assume "\<exists>a xs fr. ex = Ref a \<and> a < length g \<and> g ! a = Arr xs fr"
      then obtain a xs fr where a: "ex = Ref a" "a < length g" "g ! a = Arr xs fr" by blast
      show False
      proof (cases "a < length h")
        case True
        with a assms(3) False show False by auto
      next
        case False
        with a l(1) show False by (simp add: get_def to_object_def view_def)
      qed
    qed
    from get_mono[OF l(1) assms(2,3)] have "get g ex (Str ''length'') = Inr Undefined" .
    with nr t l(2) show ?thesis
      by (cases ex) (auto simp: excluded_def split: cell.split)
  qed
qed

lemma restrict_one_skips:
  assumes "restrict_one h object isCons exceptFor prop (Dsc d) = (Inr opt, h')"
    "excluded h exceptFor prop = Inr skip"
  shows "(opt = None) = (skip \<or> \<not> configurable d)"
proof (cases "skip \<or> \<not> configurable d")
  case True
  note b = assms(1)[unfolded restrict_one_def assms(2) andThen_lift]
  from True b show ?thesis by (cases skip) auto
next
  case False
  note b = assms(1)[unfolded restrict_one_def assms(2) andThen_lift]
  show ?thesis
  proof (cases d)
    case (Data v w e c)
    with b False show ?thesis
      by (auto dest!: andThen_cases simp: lift_def split: if_split_asm)
  next
    case (Accessor g s e c)
    with b False show ?thesis
      by (auto dest!: andThen_cases simp: lift_def split: if_split_asm)
  qed
qed

lemma restrict_loop_done:
  assumes "iter_next h it = (Inr (res, it1), h1)" "get h1 res (Str ''done'') = Inr (BoolV True)"
  shows "restrict_loop (Suc n) h it object isCons exceptFor ds = Some (Inr ds, h1)"
  using assms by (simp add: restrict_loop.simps truthy_def)

lemma restrict_loop_more:
  assumes "iter_next h it = (Inr (res, it1), h1)" "get h1 res (Str ''done'') = Inr (BoolV False)"
    "get h1 res (Str ''value'') = Inr a" "element h1 a 0 = Inr (key_val k)"
    "element h1 a 1 = Inr descriptor"
    "restrict_one h1 object isCons exceptFor (key_val k) descriptor = (ro, h2)"
  shows "restrict_loop (Suc n) h it object isCons exceptFor ds
           = (case ro of
                Inl e \<Rightarrow> Some (Inl e, h2)
              | Inr None \<Rightarrow> restrict_loop n h2 it1 object isCons exceptFor ds
              | Inr (Some d') \<Rightarrow>
                  restrict_loop n h2 it1 object isCons exceptFor (assign ds k d'))"
  using assms
  by (cases ro)
     (auto simp: restrict_loop.simps truthy_def andThen_def lift_def split: option.split)

lemma restrict_loop_inv:
  assumes "n = length (names it) - index it"
    and "iter_ok h it" "iter_cells h it = [r, arr]" "target it = Ref a"
    and "a < length h" "h ! a = Obj ob" "a \<noteq> r" "a \<noteq> arr"
    and "set (names it) \<subseteq> set (map fst (props ob))" "ds_ok isCons ob ds"
    and "T \<longrightarrow> map_of (props ob) k0 = Some d0 \<and> k0 \<noteq> Str ''__proto__''
           \<and> (\<forall>g. length h \<le> length g
                    \<and> (\<forall>b < length h. b \<noteq> r \<longrightarrow> b \<noteq> arr \<longrightarrow> g ! b = h ! b) \<longrightarrow>
                  excluded g exceptFor (key_val k0) = Inr skip0)
           \<and> tracked skip0 d0 k0 ds (k0 \<in> set (take (index it) (names it)))"
  shows "\<exists>x h'. restrict_loop (Suc n) h it (Ref a) isCons exceptFor ds = Some (x, h')
      \<and> length h \<le> length h'
      \<and> (\<forall>b < length h. b \<noteq> r \<longrightarrow> b \<noteq> arr \<longrightarrow> h' ! b = h ! b)
      \<and> (\<forall>ds'. x = Inr ds' \<longrightarrow> ds_ok isCons ob ds'
             \<and> (T \<longrightarrow> tracked skip0 d0 k0 ds' (k0 \<in> set (names it))))"
  using assms
proof (induction n arbitrary: h it ds)
  case 0
  then have fin: "length (names it) \<le> index it" by simp
  from next_done[OF "0.prems"(2) fin] obtain g1 where s:
    "iter_next h it = (Inr (result it, it), g1)"
    "observed g1 (result it) = (Inr (BoolV True), Some ([], True))"
    "length g1 = length h" "\<forall>b. b \<notin> set (iter_cells h it) \<longrightarrow> g1 ! b = h ! b"
    by blast
  from s(2) have d: "get g1 (result it) (Str ''done'') = Inr (BoolV True)"
    by (simp add: observed_def)
  have "restrict_loop (Suc 0) h it (Ref a) isCons exceptFor ds = Some (Inr ds, g1)"
    by (rule restrict_loop_done[OF s(1) d])
  with s(3,4) "0.prems"(3,10,11) fin show ?case by simp
next
  case (Suc n)
  then have more: "index it < length (names it)" by simp
  let ?k = "names it ! index it"
  let ?it1 = "it\<lparr>index := Suc (index it)\<rparr>"
  from iter_cells_ok[OF Suc.prems(2)] Suc.prems(3)
  have rr: "result it = Ref r" "r < length h" "arr < length h" by auto
  from more Suc.prems(9) have "?k \<in> set (map fst (props ob))" by auto
  then obtain d where d: "map_of (props ob) ?k = Some d"
    by (cases "map_of (props ob) ?k") (auto simp: map_of_eq_None_iff)
  have D: "getOwnPropertyDescriptor h (target it) ?k = Dsc d"
    using Suc.prems(4,5,6) d by (simp add: gopd_obj)
  from next_step[OF Suc.prems(2) more] obtain g1 where s:
    "iter_next h it = (Inr (result it, ?it1), g1)" "iter_ok g1 ?it1"
    "observed g1 (result it)
       = (Inr (BoolV False),
          Some ([key_val ?k, getOwnPropertyDescriptor h (target it) ?k], False))"
    "length g1 = length h" "iter_cells g1 ?it1 = iter_cells h it"
    "\<forall>b. b \<notin> set (iter_cells h it) \<longrightarrow> g1 ! b = h ! b"
    by blast
  have v: "get g1 (Ref r) (Str ''value'') = Inr (Ref arr)"
    using rr s(5) Suc.prems(3) by (intro iter_cells_value[where it="?it1"]) simp_all
  from observed_cell[OF s(3)[unfolded rr(1) D] v]
  have c: "g1 ! arr = Arr [key_val ?k, Dsc d] False"
    and dn: "get g1 (Ref r) (Str ''done'') = Inr (BoolV False)" by simp_all
  have e0: "element g1 (Ref arr) 0 = Inr (key_val ?k)"
    and e1: "element g1 (Ref arr) 1 = Inr (Dsc d)"
  proof -
    have al: "arr < length g1" using rr s(4) by simp
    show "element g1 (Ref arr) 0 = Inr (key_val ?k)"
      using element_array[OF al c, of 0] by simp
    show "element g1 (Ref arr) 1 = Inr (Dsc d)"
      using element_array[OF al c, of 1] by simp
  qed
  obtain ro h2 where ro: "restrict_one g1 (Ref a) isCons exceptFor (key_val ?k) (Dsc d) = (ro, h2)"
    by (cases "restrict_one g1 (Ref a) isCons exceptFor (key_val ?k) (Dsc d)")
  from restrict_one_result[OF ro] obtain xs where x: "h2 = g1 @ xs"
    and xl: "\<forall>d'. ro = Inr (Some d') \<longrightarrow> configurable d \<and> lockrel isCons (key_val ?k) d d'"
    by auto
  have seen: "(k0 \<in> set (take (Suc (index it)) (names it)))
                = (k0 = ?k \<or> k0 \<in> set (take (index it) (names it)))"
    using more by (auto simp: take_Suc_conv_app_nth)
  have dec: "(opt = None) = (skip0 \<or> \<not> configurable d0)"
    if "T" "k0 = ?k" "ro = Inr opt" for opt
  proof -
    from that(1) Suc.prems(11) have e: "excluded g1 exceptFor (key_val k0) = Inr skip0"
      and d0: "map_of (props ob) k0 = Some d0"
      using s(4,6) Suc.prems(3) by auto
    from d0 d that(2) have "d = d0" by simp
    with restrict_one_skips[OF ro[unfolded that(3)] e[unfolded that(2)]] show ?thesis by simp
  qed
  have u: "restrict_loop (Suc (Suc n)) h it (Ref a) isCons exceptFor ds
           = (case ro of
                Inl e \<Rightarrow> Some (Inl e, h2)
              | Inr None \<Rightarrow> restrict_loop (Suc n) h2 ?it1 (Ref a) isCons exceptFor ds
              | Inr (Some d') \<Rightarrow>
                  restrict_loop (Suc n) h2 ?it1 (Ref a) isCons exceptFor (assign ds ?k d'))"
    by (rule restrict_loop_more[OF s(1)[unfolded rr(1)] dn v e0 e1 ro])
  have ga: "g1 ! a = Obj ob" "g1 ! r = h ! r \<or> True"
    using s(6) Suc.prems(3,6,7,8) by simp_all
  have fr: "\<forall>b < length h. b \<noteq> r \<longrightarrow> b \<noteq> arr \<longrightarrow> h2 ! b = h ! b"
    using s(4,6) x Suc.prems(3) by (simp add: nth_append)
  have len: "length h \<le> length h2" using s(4) x by simp
  from iter_frame[OF s(2) s(5)[unfolded Suc.prems(3)], of h2] x rr s(4)
  have it2: "iter_ok h2 ?it1" "iter_cells h2 ?it1 = [r, arr]"
    by (simp_all add: nth_append)
  have ih: "\<exists>x h'. restrict_loop (Suc n) h2 ?it1 (Ref a) isCons exceptFor ds2 = Some (x, h')
      \<and> length h2 \<le> length h'
      \<and> (\<forall>b < length h2. b \<noteq> r \<longrightarrow> b \<noteq> arr \<longrightarrow> h' ! b = h2 ! b)
      \<and> (\<forall>ds'. x = Inr ds' \<longrightarrow> ds_ok isCons ob ds'
             \<and> (T \<longrightarrow> tracked skip0 d0 k0 ds' (k0 \<in> set (names ?it1))))"
    if "ds_ok isCons ob ds2"
      "T \<longrightarrow> tracked skip0 d0 k0 ds2 (k0 \<in> set (take (Suc (index it)) (names it)))" for ds2
  proof (rule Suc.IH)
    show "n = length (names ?it1) - index ?it1" using Suc.prems(1) by simp
    show "iter_ok h2 ?it1" "iter_cells h2 ?it1 = [r, arr]" by (rule it2)+
    show "target ?it1 = Ref a" using Suc.prems(4) by simp
    show "a < length h2" using Suc.prems(5) len by simp
    show "h2 ! a = Obj ob" using ga(1) x Suc.prems(5) s(4) by (simp add: nth_append)
    show "a \<noteq> r" "a \<noteq> arr" by (rule Suc.prems)+
    show "set (names ?it1) \<subseteq> set (map fst (props ob))" using Suc.prems(9) by simp
    show "ds_ok isCons ob ds2" by (rule that)
    show "T \<longrightarrow> map_of (props ob) k0 = Some d0 \<and> k0 \<noteq> Str ''__proto__''
           \<and> (\<forall>g. length h2 \<le> length g
                    \<and> (\<forall>b < length h2. b \<noteq> r \<longrightarrow> b \<noteq> arr \<longrightarrow> g ! b = h2 ! b) \<longrightarrow>
                  excluded g exceptFor (key_val k0) = Inr skip0)
           \<and> tracked skip0 d0 k0 ds2 (k0 \<in> set (take (index ?it1) (names ?it1)))"
    proof
      assume T: T
      have "excluded g exceptFor (key_val k0) = Inr skip0"
        if g: "length h2 \<le> length g"
          "\<forall>b < length h2. b \<noteq> r \<longrightarrow> b \<noteq> arr \<longrightarrow> g ! b = h2 ! b" for g
      proof -
        have "length h \<le> length g" using g(1) len by simp
        moreover have "\<forall>b < length h. b \<noteq> r \<longrightarrow> b \<noteq> arr \<longrightarrow> g ! b = h ! b"
          using g(2) fr len by auto
        ultimately show ?thesis using T Suc.prems(11) by blast
      qed
      moreover have "tracked skip0 d0 k0 ds2 (k0 \<in> set (take (index ?it1) (names ?it1)))"
        using T that(2) by simp
      ultimately show "map_of (props ob) k0 = Some d0 \<and> k0 \<noteq> Str ''__proto__''
           \<and> (\<forall>g. length h2 \<le> length g
                    \<and> (\<forall>b < length h2. b \<noteq> r \<longrightarrow> b \<noteq> arr \<longrightarrow> g ! b = h2 ! b) \<longrightarrow>
                  excluded g exceptFor (key_val k0) = Inr skip0)
           \<and> tracked skip0 d0 k0 ds2 (k0 \<in> set (take (index ?it1) (names ?it1)))"
        using T Suc.prems(11) by blast
    qed
  qed
  have comb: "\<exists>x h'. R = Some (x, h')
      \<and> length h \<le> length h'
      \<and> (\<forall>b < length h. b \<noteq> r \<longrightarrow> b \<noteq> arr \<longrightarrow> h' ! b = h ! b)
      \<and> (\<forall>ds'. x = Inr ds' \<longrightarrow> ds_ok isCons ob ds'
             \<and> (T \<longrightarrow> tracked skip0 d0 k0 ds' (k0 \<in> set (names it))))"
    if "\<exists>x h'. R = Some (x, h')
      \<and> length h2 \<le> length h'
      \<and> (\<forall>b < length h2. b \<noteq> r \<longrightarrow> b \<noteq> arr \<longrightarrow> h' ! b = h2 ! b)
      \<and> (\<forall>ds'. x = Inr ds' \<longrightarrow> ds_ok isCons ob ds'
             \<and> (T \<longrightarrow> tracked skip0 d0 k0 ds' (k0 \<in> set (names ?it1))))" for R
  proof -
    from that obtain x' h' where t: "R = Some (x', h')" "length h2 \<le> length h'"
      "\<forall>b < length h2. b \<noteq> r \<longrightarrow> b \<noteq> arr \<longrightarrow> h' ! b = h2 ! b"
      "\<forall>ds'. x' = Inr ds' \<longrightarrow> ds_ok isCons ob ds'
             \<and> (T \<longrightarrow> tracked skip0 d0 k0 ds' (k0 \<in> set (names it)))"
      by auto
    have "\<forall>b < length h. b \<noteq> r \<longrightarrow> b \<noteq> arr \<longrightarrow> h' ! b = h ! b"
      using t(3) fr len by auto
    with t len show ?thesis by auto
  qed
  show ?case
  proof (cases ro)
    case (Inl e)
    with u fr len show ?thesis by simp
  next
    case (Inr opt)
    show ?thesis
    proof (cases opt)
      case None
      have "T \<longrightarrow> tracked skip0 d0 k0 ds (k0 \<in> set (take (Suc (index it)) (names it)))"
      proof
        assume T: T
        with Suc.prems(11) have tk: "tracked skip0 d0 k0 ds (k0 \<in> set (take (index it) (names it)))"
          by simp
        show "tracked skip0 d0 k0 ds (k0 \<in> set (take (Suc (index it)) (names it)))"
        proof (cases "k0 = ?k")
          case True
          from dec[OF T True Inr] None have "skip0 \<or> \<not> configurable d0" by simp
          with tk True show ?thesis unfolding seen by (auto simp: tracked_def split: if_split_asm)
        next
          case False
          with tk show ?thesis unfolding seen by simp
        qed
      qed
      with Inr None u comb[OF ih[OF Suc.prems(10)]] show ?thesis by simp
    next
      case (Some d')
      with Inr xl have "configurable d" "lockrel isCons (key_val ?k) d d'" by auto
      from ds_ok_assign[OF Suc.prems(10) d this]
      have ok': "ds_ok isCons ob (assign ds ?k d')" .
      have "T \<longrightarrow> tracked skip0 d0 k0 (assign ds ?k d')
                    (k0 \<in> set (take (Suc (index it)) (names it)))"
      proof
        assume T: T
        with Suc.prems(11) have tk: "tracked skip0 d0 k0 ds (k0 \<in> set (take (index it) (names it)))"
          and np: "k0 \<noteq> Str ''__proto__''"
          by simp_all
        show "tracked skip0 d0 k0 (assign ds ?k d')
                (k0 \<in> set (take (Suc (index it)) (names it)))"
        proof (cases "k0 = ?k")
          case True
          from dec[OF T True Inr] Some have "\<not> skip0 \<and> configurable d0" by simp
          with True np show ?thesis
            unfolding seen by (simp add: tracked_def assign_def map_of_set_prop)
        next
          case False
          then have "map_of (assign ds ?k d') k0 = map_of ds k0"
            by (simp add: assign_def map_of_set_prop)
          with tk False show ?thesis
            unfolding seen by (auto simp: tracked_def split: if_split_asm)
        qed
      qed
      from comb[OF ih[OF ok' this]] Inr Some u show ?thesis by simp
    qed
  qed
qed

subsection \<open>What restrictProperties does to its object\<close>

lemma full_not_mixed: "\<not> (is_accessor_pd (full d) \<and> is_data_pd (full d))"
  by (cases d) (simp_all add: full_def is_accessor_pd_def is_data_pd_def)

lemma refused_configurable: "configurable c \<Longrightarrow> \<not> refused D c"
  by (simp add: refused_def)

lemma applied_full: "applied (full d') c = d'"
  by (cases d'; cases c)
     (simp_all add: applied_def full_def Let_def dflt_def is_accessor_pd_def is_data_pd_def)

lemma define_own_configurable:
  assumes "a < length h" "h ! a = Obj ob" "map_of (props ob) k = Some d" "configurable d"
  shows "define_own h (Ref a) k (full d')
           = Inr (h[a := Obj (ob\<lparr>props := set_prop k d' (props ob)\<rparr>)])"
  using assms
  by (simp add: define_own_def full_not_mixed validate_apply_def refused_configurable
                applied_full)

lemma define_all_props:
  assumes "a < length h" "h ! a = Obj ob" "distinct (map fst ds)"
    "\<forall>p \<in> set ds. \<exists>d. map_of (props ob) (fst p) = Some d \<and> configurable d"
  shows "define_all h (Ref a) ds
           = (Inr (), h[a := Obj (ob\<lparr>props :=
                 fold (\<lambda>p ps. set_prop (fst p) (snd p) ps) ds (props ob)\<rparr>)])"
  using assms
proof (induction ds arbitrary: h ob)
  case Nil
  have "h[a := Obj ob] = h" using Nil(1,2) by (simp add: list_update_same_conv)
  then show ?case by simp
next
  case (Cons p ps)
  from Cons.prems(4) obtain d where d: "map_of (props ob) (fst p) = Some d" "configurable d"
    by auto
  let ?ob1 = "ob\<lparr>props := set_prop (fst p) (snd p) (props ob)\<rparr>"
  let ?h1 = "h[a := Obj ?ob1]"
  have own: "define_own h (Ref a) (fst p) (full (snd p)) = Inr ?h1"
    by (rule define_own_configurable[OF Cons.prems(1,2) d])
  have rest: "\<forall>q \<in> set ps. \<exists>d. map_of (props ?ob1) (fst q) = Some d \<and> configurable d"
  proof
    fix q assume q: "q \<in> set ps"
    then have "fst q \<in> fst ` set ps" by (rule imageI)
    moreover have "fst p \<notin> fst ` set ps" using Cons.prems(3) by simp
    ultimately have "fst q \<noteq> fst p" by (intro notI) simp
    with Cons.prems(4) q show "\<exists>d. map_of (props ?ob1) (fst q) = Some d \<and> configurable d"
      by (simp add: map_of_set_prop)
  qed
  have "define_all ?h1 (Ref a) ps
          = (Inr (), ?h1[a := Obj (?ob1\<lparr>props :=
                fold (\<lambda>p ps. set_prop (fst p) (snd p) ps) ps (props ?ob1)\<rparr>)])"
    using Cons.prems(1,3) rest by (intro Cons.IH) simp_all
  with own show ?case by (simp add: andThen_def upd_def)
qed

lemma map_of_fold_set_prop:
  "distinct (map fst ds) \<Longrightarrow>
     map_of (fold (\<lambda>p ps. set_prop (fst p) (snd p) ps) ds P) k
       = (case map_of ds k of Some d' \<Rightarrow> Some d' | None \<Rightarrow> map_of P k)"
proof (induction ds arbitrary: P)
  case Nil
  then show ?case by simp
next
  case (Cons p ps)
  then have "map_of ps (fst p) = None"
    by (simp add: map_of_eq_None_iff)
  with Cons show ?case
    by (cases p) (auto simp: map_of_set_prop split: option.split)
qed

lemma ds_ok_lookup:
  assumes "ds_ok isCons ob ds" "map_of ds k = Some d'"
  shows "\<exists>d. map_of (props ob) k = Some d \<and> configurable d \<and> lockrel isCons (key_val k) d d'"
proof -
  from assms(2) have "(k, d') \<in> set ds" by (rule map_of_SomeD)
  with assms(1) show ?thesis
    by (auto simp: ds_ok_def list_all_iff split: option.split_asm)
qed

lemma propertiesOf_obj:
  assumes "a < length h" "h ! a = Obj ob"
  shows "propertiesOf h (Ref a)
           = (\<lparr> target = Ref a,
                names = filter is_name (map fst (props ob))
                        @ filter (\<lambda>k. \<not> is_name k) (map fst (props ob)),
                index = 0, result = Ref (Suc (length h)) \<rparr>,
              h @ [Arr [] False, Obj (result_obj (Ref (length h)) False)])"
  using assms
  by (simp add: propertiesOf_def Object_of_def view_def alloc_def Let_def
                getOwnPropertyNames_def getOwnPropertySymbols_def nth_append)

lemma restrictProperties_key:
  assumes a: "a < length h" and c: "h ! a = Obj ob"
    and tr: "T \<longrightarrow> map_of (props ob) k0 = Some d0 \<and> k0 \<noteq> Str ''__proto__''
                 \<and> excluded h exceptFor (key_val k0) = Inr skip0"
  shows "\<exists>x h'. restrictProperties h (Ref a) isCons exceptFor = Some (x, h')
      \<and> length h \<le> length h'
      \<and> (\<forall>b < length h. b \<noteq> a \<longrightarrow> h' ! b = h ! b)
      \<and> (\<forall>e. x = Inl e \<longrightarrow> h' ! a = Obj ob)
      \<and> (\<forall>v. x = Inr v \<longrightarrow> v = Ref a
            \<and> (\<exists>P. h' ! a = Obj (ob\<lparr>props := P\<rparr>)
                 \<and> (\<forall>k. map_of P k = map_of (props ob) k
                       \<or> (\<exists>d d'. map_of (props ob) k = Some d \<and> configurable d
                              \<and> map_of P k = Some d'
                              \<and> lockrel isCons (key_val k) d d'))
                 \<and> (T \<longrightarrow>
                       (if skip0 \<or> \<not> configurable d0 then map_of P k0 = Some d0
                        else \<exists>d'. map_of P k0 = Some d'
                                \<and> lockrel isCons (key_val k0) d0 d'))))"
proof -
  let ?r = "Suc (length h)" and ?arr = "length h"
  let ?h0 = "h @ [Arr [] False, Obj (result_obj (Ref ?arr) False)]"
  let ?it = "\<lparr> target = Ref a,
                names = filter is_name (map fst (props ob))
                        @ filter (\<lambda>k. \<not> is_name k) (map fst (props ob)),
                index = 0, result = Ref ?r \<rparr>"
  have p: "propertiesOf h (Ref a) = (?it, ?h0)" by (rule propertiesOf_obj[OF a c])
  from propertiesOf_start[OF p] have ok: "iter_ok ?h0 ?it" by blast
  have gv: "get ?h0 (Ref ?r) (Str ''value'') = Inr (Ref ?arr)"
    by (intro get_own_data[where ob="result_obj (Ref ?arr) False" and w=False and e=False
                             and c=False])
       (simp_all add: nth_append result_obj_def)
  then have cells: "iter_cells ?h0 ?it = [?r, ?arr]" by (simp add: iter_cells_def)
  have nm: "set (names ?it) = set (map fst (props ob))" by auto
  have "\<exists>x h'. restrict_loop (Suc (length (names ?it) - index ?it)) ?h0 ?it (Ref a)
                    isCons exceptFor [] = Some (x, h')
      \<and> length ?h0 \<le> length h'
      \<and> (\<forall>b < length ?h0. b \<noteq> ?r \<longrightarrow> b \<noteq> ?arr \<longrightarrow> h' ! b = ?h0 ! b)
      \<and> (\<forall>ds'. x = Inr ds' \<longrightarrow> ds_ok isCons ob ds'
             \<and> (T \<longrightarrow> tracked skip0 d0 k0 ds' (k0 \<in> set (names ?it))))"
  proof (rule restrict_loop_inv[where ob=ob])
    show "iter_ok ?h0 ?it" by (rule ok)
    show "iter_cells ?h0 ?it = [?r, ?arr]" by (rule cells)
    show "?h0 ! a = Obj ob" using a c by (simp add: nth_append)
    show "set (names ?it) \<subseteq> set (map fst (props ob))" by auto
    show "ds_ok isCons ob []" by (simp add: ds_ok_def)
    show "T \<longrightarrow> map_of (props ob) k0 = Some d0 \<and> k0 \<noteq> Str ''__proto__''
           \<and> (\<forall>g. length ?h0 \<le> length g
                    \<and> (\<forall>b < length ?h0. b \<noteq> ?r \<longrightarrow> b \<noteq> ?arr \<longrightarrow> g ! b = ?h0 ! b) \<longrightarrow>
                  excluded g exceptFor (key_val k0) = Inr skip0)
           \<and> tracked skip0 d0 k0 [] (k0 \<in> set (take (index ?it) (names ?it)))"
    proof
      assume T: T
      with tr have e: "excluded h exceptFor (key_val k0) = Inr skip0" by simp
      have "excluded g exceptFor (key_val k0) = Inr skip0"
        if g: "length ?h0 \<le> length g"
          "\<forall>b < length ?h0. b \<noteq> ?r \<longrightarrow> b \<noteq> ?arr \<longrightarrow> g ! b = ?h0 ! b" for g
      proof (rule excluded_mono[OF e])
        show "length h \<le> length g" using g(1) by simp
        show "\<forall>b<length h. g ! b = h ! b"
        proof (intro allI impI)
          fix b assume b: "b < length h"
          with g(2) have "g ! b = ?h0 ! b" by simp
          with b show "g ! b = h ! b" by (simp add: nth_append)
        qed
      qed
      moreover have "tracked skip0 d0 k0 [] (k0 \<in> set (take (index ?it) (names ?it)))"
        by (simp add: tracked_def)
      ultimately show "map_of (props ob) k0 = Some d0 \<and> k0 \<noteq> Str ''__proto__''
           \<and> (\<forall>g. length ?h0 \<le> length g
                    \<and> (\<forall>b < length ?h0. b \<noteq> ?r \<longrightarrow> b \<noteq> ?arr \<longrightarrow> g ! b = ?h0 ! b) \<longrightarrow>
                  excluded g exceptFor (key_val k0) = Inr skip0)
           \<and> tracked skip0 d0 k0 [] (k0 \<in> set (take (index ?it) (names ?it)))"
        using T tr by blast
    qed
  qed (use a in simp_all)
  then obtain x h2 where l:
    "restrict_loop (Suc (length (names ?it))) ?h0 ?it (Ref a) isCons exceptFor [] = Some (x, h2)"
    "length ?h0 \<le> length h2"
    "\<forall>b < length ?h0. b \<noteq> ?r \<longrightarrow> b \<noteq> ?arr \<longrightarrow> h2 ! b = ?h0 ! b"
    "\<forall>ds'. x = Inr ds' \<longrightarrow> ds_ok isCons ob ds'
             \<and> (T \<longrightarrow> tracked skip0 d0 k0 ds' (k0 \<in> set (names ?it)))"
    by auto
  have old: "\<forall>b < length h. h2 ! b = h ! b"
    using l(3) by (auto simp: nth_append)
  have len: "length h \<le> length h2" using l(2) by simp
  show ?thesis
  proof (cases x)
    case (Inl e)
    with p l(1) have "restrictProperties h (Ref a) isCons exceptFor = Some (Inl e, h2)"
      by (simp add: restrictProperties_def)
    with old len a c show ?thesis by simp
  next
    case (Inr ds)
    with l(4) have ds: "ds_ok isCons ob ds"
      and tk: "T \<longrightarrow> tracked skip0 d0 k0 ds (k0 \<in> set (names ?it))"
      by simp_all
    let ?P = "fold (\<lambda>p ps. set_prop (fst p) (snd p) ps) ds (props ob)"
    let ?h' = "h2[a := Obj (ob\<lparr>props := ?P\<rparr>)]"
    have a2: "a < length h2" "h2 ! a = Obj ob" using a c old len by auto
    have dist: "distinct (map fst ds)" using ds by (simp add: ds_ok_def)
    have cf: "\<forall>p \<in> set ds. \<exists>d. map_of (props ob) (fst p) = Some d \<and> configurable d"
      using ds by (auto simp: ds_ok_def list_all_iff split: option.split_asm)
    have da: "define_all h2 (Ref a) ds = (Inr (), ?h')"
      by (rule define_all_props[OF a2 dist cf])
    have vw: "view h2 (Ref a) \<noteq> None" using a2 by (simp add: view_def)
    have dp: "defineProperties h2 (Ref a) ds = (Inr (Ref a), ?h')"
      using vw da by (simp add: defineProperties_def andThen_def)
    have run: "restrictProperties h (Ref a) isCons exceptFor = Some (Inr (Ref a), ?h')"
      using p l(1) Inr dp by (simp add: restrictProperties_def)
    have rel: "\<forall>k. map_of ?P k = map_of (props ob) k
                 \<or> (\<exists>d d'. map_of (props ob) k = Some d \<and> configurable d
                        \<and> map_of ?P k = Some d' \<and> lockrel isCons (key_val k) d d')"
    proof
      fix k
      show "map_of ?P k = map_of (props ob) k
                 \<or> (\<exists>d d'. map_of (props ob) k = Some d \<and> configurable d
                        \<and> map_of ?P k = Some d' \<and> lockrel isCons (key_val k) d d')"
      proof (cases "map_of ds k")
        case None
        then show ?thesis by (simp add: map_of_fold_set_prop[OF dist])
      next
        case (Some d')
        from ds_ok_lookup[OF ds Some] Some show ?thesis
          by (auto simp: map_of_fold_set_prop[OF dist])
      qed
    qed
    have key: "T \<longrightarrow> (if skip0 \<or> \<not> configurable d0 then map_of ?P k0 = Some d0
                        else \<exists>d'. map_of ?P k0 = Some d'
                                \<and> lockrel isCons (key_val k0) d0 d')"
    proof
      assume T: T
      with tr have d0: "map_of (props ob) k0 = Some d0" by simp
      then have "k0 \<in> set (map fst (props ob))"
        by (metis map_of_eq_None_iff option.distinct(1) set_map)
      with tk T nm have t: "(map_of ds k0 \<noteq> None) = (\<not> skip0 \<and> configurable d0)"
        by (simp add: tracked_def)
      show "if skip0 \<or> \<not> configurable d0 then map_of ?P k0 = Some d0
            else \<exists>d'. map_of ?P k0 = Some d' \<and> lockrel isCons (key_val k0) d0 d'"
      proof (cases "map_of ds k0")
        case None
        with t d0 show ?thesis by (auto simp: map_of_fold_set_prop[OF dist])
      next
        case (Some d')
        from ds_ok_lookup[OF ds Some] d0 Some t show ?thesis
          by (auto simp: map_of_fold_set_prop[OF dist])
      qed
    qed
    have fr: "\<forall>b < length h. b \<noteq> a \<longrightarrow> ?h' ! b = h ! b" using old by simp
    have ce: "?h' ! a = Obj (ob\<lparr>props := ?P\<rparr>)" using a2 by simp
    from rel key ce have "\<exists>P. ?h' ! a = Obj (ob\<lparr>props := P\<rparr>)
                 \<and> (\<forall>k. map_of P k = map_of (props ob) k
                       \<or> (\<exists>d d'. map_of (props ob) k = Some d \<and> configurable d
                              \<and> map_of P k = Some d'
                              \<and> lockrel isCons (key_val k) d d'))
                 \<and> (T \<longrightarrow>
                       (if skip0 \<or> \<not> configurable d0 then map_of P k0 = Some d0
                        else \<exists>d'. map_of P k0 = Some d'
                                \<and> lockrel isCons (key_val k0) d0 d'))"
      by (intro exI[of _ ?P] conjI)
    with run fr len show ?thesis
      by (intro exI[of _ "Inr (Ref a)"] exI[of _ ?h']) simp
  qed
qed

lemma restrictProperties_effect:
  assumes a: "a < length h" and c: "h ! a = Obj ob"
  shows "\<exists>x h'. restrictProperties h (Ref a) isCons exceptFor = Some (x, h')
      \<and> length h \<le> length h'
      \<and> (\<forall>b < length h. b \<noteq> a \<longrightarrow> h' ! b = h ! b)
      \<and> (\<forall>e. x = Inl e \<longrightarrow> h' ! a = Obj ob)
      \<and> (\<forall>v. x = Inr v \<longrightarrow> v = Ref a
            \<and> (\<exists>P. h' ! a = Obj (ob\<lparr>props := P\<rparr>)
                 \<and> (\<forall>k. map_of P k = map_of (props ob) k
                       \<or> (\<exists>d d'. map_of (props ob) k = Some d \<and> configurable d
                              \<and> map_of P k = Some d'
                              \<and> lockrel isCons (key_val k) d d'))))"
  using restrictProperties_key[OF a c, where T=False and isCons=isCons and exceptFor=exceptFor]
  by simp

lemma pass_keeps:
  assumes a: "a < length h" "h ! a = Obj ob"
    and b: "b < length h" "h ! b = Obj pob" "map_of (props pob) k = Some d" "Q d"
    and stable: "\<And>d d'. Q d \<Longrightarrow> configurable d \<Longrightarrow> lockrel isCons (key_val k) d d' \<Longrightarrow> Q d'"
  shows "\<exists>x h'. restrictProperties h (Ref a) isCons exceptFor = Some (x, h')
      \<and> (\<forall>v. x = Inr v \<longrightarrow> v = Ref a \<and> length h \<le> length h'
            \<and> (\<exists>pob' d'. h' ! b = Obj pob' \<and> map_of (props pob') k = Some d' \<and> Q d')
            \<and> (\<forall>c < length h. (\<exists>cob. h ! c = Obj cob) \<longrightarrow> (\<exists>cob'. h' ! c = Obj cob')))"
proof -
  from restrictProperties_effect[OF a, of isCons exceptFor] obtain x h' where r:
    "restrictProperties h (Ref a) isCons exceptFor = Some (x, h')"
    "length h \<le> length h'"
    "\<forall>c < length h. c \<noteq> a \<longrightarrow> h' ! c = h ! c"
    "\<forall>v. x = Inr v \<longrightarrow> v = Ref a
            \<and> (\<exists>P. h' ! a = Obj (ob\<lparr>props := P\<rparr>)
                 \<and> (\<forall>k. map_of P k = map_of (props ob) k
                       \<or> (\<exists>d d'. map_of (props ob) k = Some d \<and> configurable d
                              \<and> map_of P k = Some d'
                              \<and> lockrel isCons (key_val k) d d')))"
    by blast
  have "v = Ref a \<and> length h \<le> length h'
            \<and> (\<exists>pob' d'. h' ! b = Obj pob' \<and> map_of (props pob') k = Some d' \<and> Q d')
            \<and> (\<forall>c < length h. (\<exists>cob. h ! c = Obj cob) \<longrightarrow> (\<exists>cob'. h' ! c = Obj cob'))"
    if x: "x = Inr v" for v
  proof -
    from r(4) x obtain P where P: "v = Ref a" "h' ! a = Obj (ob\<lparr>props := P\<rparr>)"
      "\<forall>k. map_of P k = map_of (props ob) k
                       \<or> (\<exists>d d'. map_of (props ob) k = Some d \<and> configurable d
                              \<and> map_of P k = Some d'
                              \<and> lockrel isCons (key_val k) d d')"
      by blast
    have objs: "\<forall>c < length h. (\<exists>cob. h ! c = Obj cob) \<longrightarrow> (\<exists>cob'. h' ! c = Obj cob')"
      using r(3) P(2) by (metis)
    have tag: "\<exists>pob' d'. h' ! b = Obj pob' \<and> map_of (props pob') k = Some d' \<and> Q d'"
    proof (cases "b = a")
      case False
      with r(3) b show ?thesis by auto
    next
      case True
      with a b have ob: "pob = ob" by simp
      from P(3) have "map_of P k = map_of (props ob) k
                       \<or> (\<exists>d d'. map_of (props ob) k = Some d \<and> configurable d
                              \<and> map_of P k = Some d'
                              \<and> lockrel isCons (key_val k) d d')" ..
      then have "\<exists>d'. map_of P k = Some d' \<and> Q d'"
        using b(3,4) stable unfolding ob by auto
      with P(2) True show ?thesis by auto
    qed
    from P(1) r(2) tag objs show ?thesis by simp
  qed
  with r(1) show ?thesis by blast
qed

lemma get_view_data:
  "view h v = Some ob \<Longrightarrow> map_of (props ob) k = Some (Data x w e c) \<Longrightarrow> get h v k = Inr x"
  by (cases v) (auto simp: get_def to_object_def view_def)

lemma hasOwn_map_of:
  "view h v = Some ob \<Longrightarrow> hasOwn h v k = Inr (map_of (props ob) k \<noteq> None)"
  by (simp add: hasOwn_view map_of_eq_None_iff)

subsection \<open>The type tag\<close>

lemma tag_prototype_skips:
  assumes "b < length h" "h ! b = Obj pob" "map_of (props pob) toStringTag = Some d"
  shows "tag_prototype h C E' (Ref b) = (Inr (), h)"
proof -
  have "view h (Ref b) = Some pob" using assms by (simp add: view_def)
  from hasOwn_map_of[OF this, of toStringTag] assms(3) show ?thesis
    by (simp add: tag_prototype_def andThen_def lift_def)
qed

lemma tag_prototype_defines:
  assumes "b < length h" "h ! b = Obj pob" "map_of (props pob) toStringTag = None"
    "hasOwn h E' (Str ''name'') = Inr named"
    "get h (if named then E' else C) (Str ''name'') = Inr n"
  shows "tag_prototype h C E' (Ref b)
           = (if extensible pob
              then (Inr (), h[b := Obj (pob\<lparr>props :=
                       set_prop toStringTag (Data n False False False) (props pob)\<rparr>)])
              else (Inl (TypeError ''Cannot define property''), h))"
proof -
  have v: "view h (Ref b) = Some pob" using assms by (simp add: view_def)
  have d: "define_own h (Ref b) toStringTag (only_value n)
             = (if extensible pob
                then Inr (h[b := Obj (pob\<lparr>props :=
                       set_prop toStringTag (Data n False False False) (props pob)\<rparr>)])
                else Inl (TypeError ''Cannot define property''))"
    using assms(1,2,3)
    by (simp add: define_own_def only_value_def is_accessor_pd_def is_data_pd_def
                  validate_apply_def created_def dflt_def)
  from hasOwn_map_of[OF v, of toStringTag] assms(3,4,5) v d show ?thesis
    by (simp add: tag_prototype_def defineProperty_def andThen_def upd_def lift_def)
qed

lemma restrict_class_tag_fails:
  assumes "verifyIsConstructor h C None = Inr C"
    and "get h C (Str ''prototype'') = Inr (Ref b)"
    and "tag_prototype h C E' (Ref b) = (Inl e, h2)"
  shows "restrict_class h C E' = Some (Inl e, h2)"
  using assms by (simp add: restrict_class_def andThen_def lift_def)

lemma lockrel_locked: "lockrel isCons prop d d' \<Longrightarrow> \<not> configurable d'"
  by (cases d; cases d') (auto simp: lockrel_def)

lemma pass_keeps_run:
  assumes run: "restrictProperties h (Ref a) isCons exceptFor = Some (Inr v, h')"
    and a: "a < length h" "h ! a = Obj ob"
    and b: "b < length h" "h ! b = Obj pob" "map_of (props pob) k = Some d"
      "\<not> configurable d"
  shows "\<exists>pob'. b < length h' \<and> h' ! b = Obj pob' \<and> map_of (props pob') k = Some d"
proof -
  from pass_keeps[of a h ob b pob k d "\<lambda>x. x = d" isCons exceptFor, OF a b(1,2,3) refl] b(4)
  obtain x g where r: "restrictProperties h (Ref a) isCons exceptFor = Some (x, g)"
    "\<forall>v. x = Inr v \<longrightarrow> v = Ref a \<and> length h \<le> length g
              \<and> (\<exists>pob' d'. g ! b = Obj pob' \<and> map_of (props pob') k = Some d' \<and> d' = d)"
    by blast
  from r(1) run have "x = Inr v" "g = h'" by simp_all
  with r(2) b(1) show ?thesis by auto
qed

lemma pass_exact_run:
  assumes run: "restrictProperties h (Ref a) isCons exceptFor = Some (Inr v, h')"
    and a: "a < length h" "h ! a = Obj ob"
    and d: "map_of (props ob) k0 = Some d0" "k0 \<noteq> Str ''__proto__''"
    and e: "excluded h exceptFor (key_val k0) = Inr skip"
  shows "\<exists>ob'. a < length h' \<and> h' ! a = Obj ob'
           \<and> (if skip \<or> \<not> configurable d0 then map_of (props ob') k0 = Some d0
               else \<exists>d'. map_of (props ob') k0 = Some d'
                       \<and> lockrel isCons (key_val k0) d0 d')"
proof -
  have "True \<longrightarrow> map_of (props ob) k0 = Some d0 \<and> k0 \<noteq> Str ''__proto__''
                 \<and> excluded h exceptFor (key_val k0) = Inr skip"
    using d e by simp
  from restrictProperties_key[OF a this, of isCons]
  obtain x g where r: "restrictProperties h (Ref a) isCons exceptFor = Some (x, g)"
    "length h \<le> length g"
    "\<forall>v. x = Inr v \<longrightarrow> v = Ref a
            \<and> (\<exists>P. g ! a = Obj (ob\<lparr>props := P\<rparr>)
                 \<and> (\<forall>k. map_of P k = map_of (props ob) k
                       \<or> (\<exists>d d'. map_of (props ob) k = Some d \<and> configurable d
                              \<and> map_of P k = Some d'
                              \<and> lockrel isCons (key_val k) d d'))
                 \<and> (True \<longrightarrow>
                       (if skip \<or> \<not> configurable d0 then map_of P k0 = Some d0
                        else \<exists>d'. map_of P k0 = Some d'
                                \<and> lockrel isCons (key_val k0) d0 d')))"
    by blast
  from r(1) run have x: "x = Inr v" "g = h'" by simp_all
  with r(3) obtain P where P: "h' ! a = Obj (ob\<lparr>props := P\<rparr>)"
    "if skip \<or> \<not> configurable d0 then map_of P k0 = Some d0
     else \<exists>d'. map_of P k0 = Some d' \<and> lockrel isCons (key_val k0) d0 d'"
    by auto
  have "a < length h'" using a(1) r(2) x by simp
  with P show ?thesis by (intro exI[of _ "ob\<lparr>props := P\<rparr>"]) simp
qed

lemma pass_frame_run:
  assumes run: "restrictProperties h (Ref a) isCons exceptFor = Some (x, h')"
    and a: "a < length h" "h ! a = Obj ob"
  shows "length h \<le> length h' \<and> (\<forall>b < length h. b \<noteq> a \<longrightarrow> h' ! b = h ! b)
       \<and> (\<exists>ob'. h' ! a = Obj ob')"
proof -
  from restrictProperties_effect[OF a, of isCons exceptFor] run show ?thesis
    by (cases x) auto
qed

lemma restrict_class_run:
  assumes v: "verifyIsConstructor h (Ref c) None = Inr (Ref c)"
    and gp: "get h (Ref c) (Str ''prototype'') = Inr (Ref b)"
    and t: "tag_prototype h (Ref c) E' (Ref b) = (Inr (), h2)"
    and C: "c < length h2" "h2 ! c = Obj cob2"
    and b: "b < length h2" "h2 ! b = Obj pob2"
  shows "\<exists>r h'. restrict_class h (Ref c) E' = Some (r, h')
     \<and> (\<forall>v. r = Inr v \<longrightarrow> v = Ref c
          \<and> (\<exists>ex h3 exs cob3. get h2 E' (Str ''exclude'') = Inr ex
                \<and> restrictProperties h2 (Ref b) False ex = Some (Inr (Ref b), h3)
                \<and> length h2 \<le> length h3 \<and> h3 ! c = Obj cob3
                \<and> get h3 E' (Str ''excludeStatic'') = Inr exs
                \<and> restrictProperties h3 (Ref c) True exs = Some (Inr (Ref c), h')))"
proof (cases "get h2 E' (Str ''exclude'')")
  case (Inl e)
  with v gp t have "restrict_class h (Ref c) E' = Some (Inl e, h2)"
    by (simp add: restrict_class_def andThen_def lift_def)
  then show ?thesis by simp
next
  case (Inr ex)
  from restrictProperties_effect[OF b, of False ex]
  obtain x h3 where p1: "restrictProperties h2 (Ref b) False ex = Some (x, h3)"
    "\<forall>v. x = Inr v \<longrightarrow> v = Ref b"
    by blast
  note f1 = pass_frame_run[OF p1(1) b]
  have start: "restrict_class h (Ref c) E'
      = (case restrictProperties h2 (Ref b) False ex of
             None \<Rightarrow> None
           | Some (Inl e, h2) \<Rightarrow> Some (Inl e, h2)
           | Some (Inr p, h2) \<Rightarrow>
               (case get h2 E' (Str ''excludeStatic'') of
                  Inl e \<Rightarrow> Some (Inl e, h2)
                | Inr excludeStatic \<Rightarrow> restrictProperties h2 (Ref c) True excludeStatic))"
    using v gp t Inr by (simp add: restrict_class_def andThen_def lift_def)
  show ?thesis
  proof (cases x)
    case (Inl e)
    with start p1(1) show ?thesis by simp
  next
    case xr: (Inr pv)
    with p1(2) have pv: "pv = Ref b" by simp
    from f1 C obtain cob3 where c3: "c < length h3" "h3 ! c = Obj cob3"
      by (cases "c = b") auto
    show ?thesis
    proof (cases "get h3 E' (Str ''excludeStatic'')")
      case (Inl e)
      with start p1(1) xr show ?thesis by simp
    next
      case exs: (Inr exs)
      from restrictProperties_effect[OF c3, of True exs]
      obtain y h4 where p2: "restrictProperties h3 (Ref c) True exs = Some (y, h4)"
        "\<forall>v. y = Inr v \<longrightarrow> v = Ref c"
        by blast
      have r: "restrict_class h (Ref c) E' = Some (y, h4)"
        using start p1(1) xr exs p2(1) by simp
      have "v = Ref c
          \<and> (\<exists>ex h3 exs cob3. get h2 E' (Str ''exclude'') = Inr ex
                \<and> restrictProperties h2 (Ref b) False ex = Some (Inr (Ref b), h3)
                \<and> length h2 \<le> length h3 \<and> h3 ! c = Obj cob3
                \<and> get h3 E' (Str ''excludeStatic'') = Inr exs
                \<and> restrictProperties h3 (Ref c) True exs = Some (Inr (Ref c), h4))"
        if "y = Inr v" for v
      proof -
        from that p2(2) have yv: "v = Ref c" by simp
        from p1(1) xr pv have 1: "restrictProperties h2 (Ref b) False ex = Some (Inr (Ref b), h3)"
          by simp
        from p2(1) that yv have 2: "restrictProperties h3 (Ref c) True exs = Some (Inr (Ref c), h4)"
          by simp
        from f1 have 3: "length h2 \<le> length h3" by simp
        from yv Inr 1 3 c3(2) exs 2 show ?thesis by blast
      qed
      with r show ?thesis by blast
    qed
  qed
qed

lemma restrict_class_tag:
  assumes c: "c < length h1" "h1 ! c = Obj cob" "fcode cob \<noteq> None"
      "map_of (props cob) (Str ''prototype'') = Some (Data (Ref b) pw pe pc)"
    and b: "b < length h1" "h1 ! b = Obj pob"
  shows "\<exists>r h'. restrict_class h1 (Ref c) E' = Some (r, h')
     \<and> (\<forall>v. r = Inr v \<longrightarrow> v = Ref c
          \<and> (map_of (props pob) toStringTag = None \<longrightarrow>
               (\<exists>n. tag_value h1 (Ref c) E' = Inr n
                  \<and> getOwnPropertyDescriptor h' (Ref b) toStringTag
                       = Dsc (Data n False False False)))
          \<and> (\<forall>d. map_of (props pob) toStringTag = Some d \<longrightarrow>
                (\<not> configurable d \<longrightarrow>
                   getOwnPropertyDescriptor h' (Ref b) toStringTag = Dsc d)
              \<and> (configurable d \<longrightarrow>
                   (\<forall>ex. get h1 E' (Str ''exclude'') = Inr ex \<longrightarrow>
                      (excluded h1 ex (key_val toStringTag) = Inr True \<and> b \<noteq> c \<longrightarrow>
                         getOwnPropertyDescriptor h' (Ref b) toStringTag = Dsc d)
                    \<and> (excluded h1 ex (key_val toStringTag) = Inr False \<longrightarrow>
                         (\<exists>d'. getOwnPropertyDescriptor h' (Ref b) toStringTag = Dsc d'
                             \<and> lockrel False (key_val toStringTag) d d'))))))"
proof -
  let ?C = "Ref c"
  let ?G = "\<lambda>h'. getOwnPropertyDescriptor h' (Ref b) toStringTag"
  have "constructor_like h1 ?C"
    using c
    by (auto simp: constructor_like_def callable_def own_key_def view_def
             dest!: map_of_SomeD
             intro!: image_eqI[where x="(Str ''prototype'', Data (Ref b) pw pe pc)"])
  then have v: "verifyIsConstructor h1 ?C None = Inr ?C" by (rule verify_accept)
  have gp: "get h1 ?C (Str ''prototype'') = Inr (Ref b)"
    by (rule get_own_data[OF c(2,1,4)])
  have vb: "view h1 (Ref b) = Some pob" using b by (simp add: view_def)
  have np: "toStringTag \<noteq> Str ''__proto__''" by (simp add: toStringTag_def)
  show ?thesis
  proof (cases "map_of (props pob) toStringTag")
    case (Some d)
    have t: "tag_prototype h1 ?C E' (Ref b) = (Inr (), h1)"
      by (rule tag_prototype_skips[OF b Some])
    from restrict_class_run[OF v gp t c(1,2) b]
    obtain r h' where r: "restrict_class h1 ?C E' = Some (r, h')"
      and dec: "\<forall>v. r = Inr v \<longrightarrow> v = ?C
          \<and> (\<exists>ex h3 exs cob3. get h1 E' (Str ''exclude'') = Inr ex
                \<and> restrictProperties h1 (Ref b) False ex = Some (Inr (Ref b), h3)
                \<and> length h1 \<le> length h3 \<and> h3 ! c = Obj cob3
                \<and> get h3 E' (Str ''excludeStatic'') = Inr exs
                \<and> restrictProperties h3 ?C True exs = Some (Inr ?C, h'))"
      by blast
    have "v = ?C
          \<and> (map_of (props pob) toStringTag = None \<longrightarrow>
               (\<exists>n. tag_value h1 ?C E' = Inr n \<and> ?G h' = Dsc (Data n False False False)))
          \<and> (\<forall>d. map_of (props pob) toStringTag = Some d \<longrightarrow>
                (\<not> configurable d \<longrightarrow> ?G h' = Dsc d)
              \<and> (configurable d \<longrightarrow>
                   (\<forall>ex. get h1 E' (Str ''exclude'') = Inr ex \<longrightarrow>
                      (excluded h1 ex (key_val toStringTag) = Inr True \<and> b \<noteq> c \<longrightarrow>
                         ?G h' = Dsc d)
                    \<and> (excluded h1 ex (key_val toStringTag) = Inr False \<longrightarrow>
                         (\<exists>d'. ?G h' = Dsc d'
                             \<and> lockrel False (key_val toStringTag) d d')))))"
      if x: "r = Inr v" for v
    proof -
      from dec x obtain ex h3 exs cob3 where k: "v = ?C"
        "get h1 E' (Str ''exclude'') = Inr ex"
        "restrictProperties h1 (Ref b) False ex = Some (Inr (Ref b), h3)"
        "length h1 \<le> length h3" "h3 ! c = Obj cob3"
        "get h3 E' (Str ''excludeStatic'') = Inr exs"
        "restrictProperties h3 ?C True exs = Some (Inr ?C, h')"
        by blast
      have c3: "c < length h3" "b < length h3" using c(1) b(1) k(4) by simp_all
      have fixed: "?G h' = Dsc d1"
        if "h3 ! b = Obj pob3" "map_of (props pob3) toStringTag = Some d1"
          "\<not> configurable d1" for pob3 d1
      proof -
        from pass_keeps_run[OF k(7) c3(1) k(5) c3(2) that]
        obtain pob' where "b < length h'" "h' ! b = Obj pob'"
          "map_of (props pob') toStringTag = Some d1"
          by blast
        then show ?thesis by (simp add: gopd_obj)
      qed
      have nonconf: "?G h' = Dsc d" if nc: "\<not> configurable d"
      proof -
        from pass_keeps_run[OF k(3) b b Some nc]
        obtain pob3 where "h3 ! b = Obj pob3" "map_of (props pob3) toStringTag = Some d"
          by blast
        from fixed[OF this nc] show ?thesis .
      qed
      have skipped: "?G h' = Dsc d"
        if e: "excluded h1 ex (key_val toStringTag) = Inr True" and ne: "b \<noteq> c"
      proof -
        from pass_exact_run[OF k(3) b Some np e]
        obtain pob3 where p3: "h3 ! b = Obj pob3" "map_of (props pob3) toStringTag = Some d"
          by auto
        from pass_frame_run[OF k(7) c3(1) k(5)] c3(2) ne
        have "h' ! b = h3 ! b" "length h3 \<le> length h'" by simp_all
        with p3 c3(2) show ?thesis by (simp add: gopd_obj)
      qed
      have locked: "\<exists>d'. ?G h' = Dsc d' \<and> lockrel False (key_val toStringTag) d d'"
        if e: "excluded h1 ex (key_val toStringTag) = Inr False" and cf: "configurable d"
      proof -
        from pass_exact_run[OF k(3) b Some np e] cf
        obtain pob3 d' where p3: "h3 ! b = Obj pob3"
          "map_of (props pob3) toStringTag = Some d'"
          "lockrel False (key_val toStringTag) d d'"
          by auto
        from fixed[OF p3(1,2) lockrel_locked[OF p3(3)]] p3(3) show ?thesis by blast
      qed
      from k(1,2) Some nonconf skipped locked show ?thesis by auto
    qed
    with r show ?thesis by blast
  next
    case None
    from hasOwn_map_of[OF vb, of toStringTag] None
    have nt: "hasOwn h1 (Ref b) toStringTag = Inr False" by simp
    show ?thesis
    proof (cases "hasOwn h1 E' (Str ''name'')")
      case (Inl e)
      with nt have "tag_prototype h1 ?C E' (Ref b) = (Inl e, h1)"
        by (simp add: tag_prototype_def andThen_def lift_def)
      from restrict_class_tag_fails[OF v gp this] show ?thesis by simp
    next
      case ho: (Inr named)
      show ?thesis
      proof (cases "get h1 (if named then E' else ?C) (Str ''name'')")
        case (Inl e)
        with nt ho have "tag_prototype h1 ?C E' (Ref b) = (Inl e, h1)"
          by (simp add: tag_prototype_def andThen_def lift_def)
        from restrict_class_tag_fails[OF v gp this] show ?thesis by simp
      next
        case (Inr n)
        note tp = tag_prototype_defines[OF b None ho Inr]
        have tv: "tag_value h1 ?C E' = Inr n" using ho Inr by (simp add: tag_value_def)
        show ?thesis
        proof (cases "extensible pob")
          case False
          with tp have "tag_prototype h1 ?C E' (Ref b)
                          = (Inl (TypeError ''Cannot define property''), h1)"
            by simp
          from restrict_class_tag_fails[OF v gp this] show ?thesis by simp
        next
          case True
          let ?d = "Data n False False False"
          let ?pob2 = "pob\<lparr>props := set_prop toStringTag ?d (props pob)\<rparr>"
          let ?h2 = "h1[b := Obj ?pob2]"
          from tp True have t: "tag_prototype h1 ?C E' (Ref b) = (Inr (), ?h2)" by simp
          have c2: "c < length ?h2" using c(1) by simp
          obtain cob2 where c2': "?h2 ! c = Obj cob2"
            using c(1,2) b(1) by (cases "c = b") (simp_all add: nth_list_update)
          have b2: "b < length ?h2" "?h2 ! b = Obj ?pob2"
            "map_of (props ?pob2) toStringTag = Some ?d" "\<not> configurable ?d"
            using b(1) by (simp_all add: map_of_set_prop)
          from restrict_class_run[OF v gp t c2 c2' b2(1,2)]
          obtain r h' where r: "restrict_class h1 ?C E' = Some (r, h')"
            and dec: "\<forall>v. r = Inr v \<longrightarrow> v = ?C
              \<and> (\<exists>ex h3 exs cob3. get ?h2 E' (Str ''exclude'') = Inr ex
                    \<and> restrictProperties ?h2 (Ref b) False ex = Some (Inr (Ref b), h3)
                    \<and> length ?h2 \<le> length h3 \<and> h3 ! c = Obj cob3
                    \<and> get h3 E' (Str ''excludeStatic'') = Inr exs
                    \<and> restrictProperties h3 ?C True exs = Some (Inr ?C, h'))"
            by blast
          have "v = ?C \<and> ?G h' = Dsc ?d" if x: "r = Inr v" for v
          proof -
            from dec x obtain ex h3 exs cob3 where k: "v = ?C"
              "restrictProperties ?h2 (Ref b) False ex = Some (Inr (Ref b), h3)"
              "length ?h2 \<le> length h3" "h3 ! c = Obj cob3"
              "restrictProperties h3 ?C True exs = Some (Inr ?C, h')"
              by blast
            have c3: "c < length h3" "b < length h3" using c(1) b(1) k(3) by simp_all
            from pass_keeps_run[OF k(2) b2(1,2) b2]
            obtain pob3 where p3: "h3 ! b = Obj pob3"
              "map_of (props pob3) toStringTag = Some ?d"
              by blast
            from pass_keeps_run[OF k(5) c3(1) k(4) c3(2) p3 b2(4)]
            obtain pob' where "b < length h'" "h' ! b = Obj pob'"
              "map_of (props pob') toStringTag = Some ?d"
              by blast
            with k(1) show ?thesis by (simp add: gopd_obj)
          qed
          with r tv None show ?thesis by auto
        qed
      qed
    qed
  qed
qed

text \<open>
  C6, amended. Let \<open>C\<close> be a function that is not in the registry, whose own
  \<open>prototype\<close> is a data property holding an ordinary object, and let \<open>E\<close> be any
  value, with the options \<open>E'\<close> that \<open>restrict\<close> makes of it. Then
  \<open>restrict(C, E)\<close> returns, and when it returns without an error it returns \<open>C\<close>
  and has left the type tag of the prototype as follows.

  If the prototype had no own type tag, the tag is now a data property that is not
  writable, not enumerable and not configurable, and its value is what
  \<open>hasOwn(E', 'name') ? E'.name : C.name\<close> read.

  If the prototype had an own type tag, \<open>restrict\<close> does not redefine it, and
  \<open>restrictProperties\<close> treats it as any other property. A tag that was not configurable
  is unchanged. A configurable tag that \<open>E'.exclude\<close> lists is unchanged (the prototype
  not being \<open>C\<close> itself). A configurable tag that \<open>E'.exclude\<close> does not list is
  locked: the same kind of property, not writable, not enumerable, not configurable; a
  value that is not an object is kept.
\<close>

theorem restrict_type_tag:
  assumes fn: "callable (heap w) C" and new: "C \<notin> set (restrictMap w)"
    and pr: "getOwnPropertyDescriptor (heap w) C (Str ''prototype'') = Dsc (Data p pw pe pc)"
    and po: "obj_at (heap w) p = Some pob"
    and op: "options (heap w) E = (E', h1)"
  shows "\<exists>r w'. restrict w C E = Some (r, w')
     \<and> (\<forall>v. r = Inr v \<longrightarrow> v = C
          \<and> (map_of (props pob) toStringTag = None \<longrightarrow>
               (\<exists>n. tag_value h1 C E' = Inr n
                  \<and> getOwnPropertyDescriptor (heap w') p toStringTag
                       = Dsc (Data n False False False)))
          \<and> (\<forall>d. map_of (props pob) toStringTag = Some d \<longrightarrow>
                (\<not> configurable d \<longrightarrow>
                   getOwnPropertyDescriptor (heap w') p toStringTag = Dsc d)
              \<and> (configurable d \<longrightarrow>
                   (\<forall>ex. get h1 E' (Str ''exclude'') = Inr ex \<longrightarrow>
                      (excluded h1 ex (key_val toStringTag) = Inr True \<and> p \<noteq> C \<longrightarrow>
                         getOwnPropertyDescriptor (heap w') p toStringTag = Dsc d)
                    \<and> (excluded h1 ex (key_val toStringTag) = Inr False \<longrightarrow>
                         (\<exists>d'. getOwnPropertyDescriptor (heap w') p toStringTag = Dsc d'
                             \<and> lockrel False (key_val toStringTag) d d'))))))"
proof -
  let ?h = "heap w"
  from callable_ordinary[OF fn] obtain c cob where
    C: "C = Ref c" "c < length ?h" "?h ! c = Obj cob" "fcode cob \<noteq> None"
    by blast
  from obj_atD[OF po] obtain b where p: "p = Ref b" "b < length ?h" "?h ! b = Obj pob"
    by blast
  from pr C p(1) have cp: "map_of (props cob) (Str ''prototype'') = Some (Data (Ref b) pw pe pc)"
    by (simp add: gopd_obj split: option.split_asm)
  have ty: "typeof ?h C \<noteq> ''object''"
    using fn typeof_function[of ?h C] by simp
  have run: "restrict w C E = map_option (in_world w) (restrict_class h1 C E')"
    using ty new op by (auto simp: restrict_def alloc_def options_def split: if_split_asm)
  have c1: "c < length h1" "h1 ! c = Obj cob" and b1: "b < length h1" "h1 ! b = Obj pob"
    using C(2,3) p(2,3) op by (auto simp: options_def nth_append split: if_split_asm)
  have bc: "(Ref b \<noteq> Ref c) = (b \<noteq> c)" by simp
  from restrict_class_tag[OF c1 C(4) cp b1, of E']
  obtain r h' where r: "restrict_class h1 (Ref c) E' = Some (r, h')"
    and k: "\<forall>v. r = Inr v \<longrightarrow> v = Ref c
          \<and> (map_of (props pob) toStringTag = None \<longrightarrow>
               (\<exists>n. tag_value h1 (Ref c) E' = Inr n
                  \<and> getOwnPropertyDescriptor h' (Ref b) toStringTag
                       = Dsc (Data n False False False)))
          \<and> (\<forall>d. map_of (props pob) toStringTag = Some d \<longrightarrow>
                (\<not> configurable d \<longrightarrow>
                   getOwnPropertyDescriptor h' (Ref b) toStringTag = Dsc d)
              \<and> (configurable d \<longrightarrow>
                   (\<forall>ex. get h1 E' (Str ''exclude'') = Inr ex \<longrightarrow>
                      (excluded h1 ex (key_val toStringTag) = Inr True \<and> b \<noteq> c \<longrightarrow>
                         getOwnPropertyDescriptor h' (Ref b) toStringTag = Dsc d)
                    \<and> (excluded h1 ex (key_val toStringTag) = Inr False \<longrightarrow>
                         (\<exists>d'. getOwnPropertyDescriptor h' (Ref b) toStringTag = Dsc d'
                             \<and> lockrel False (key_val toStringTag) d d')))))"
    by blast
  have res: "restrict w (Ref c) E = Some (r, w\<lparr>heap := h'\<rparr>)"
    using run r C(1) by (simp add: in_world_def)
  have hw: "heap (w\<lparr>heap := h'\<rparr>) = h'" by simp
  have k': "\<forall>v. r = Inr v \<longrightarrow> v = Ref c
          \<and> (map_of (props pob) toStringTag = None \<longrightarrow>
               (\<exists>n. tag_value h1 (Ref c) E' = Inr n
                  \<and> getOwnPropertyDescriptor (heap (w\<lparr>heap := h'\<rparr>)) (Ref b) toStringTag
                       = Dsc (Data n False False False)))
          \<and> (\<forall>d. map_of (props pob) toStringTag = Some d \<longrightarrow>
                (\<not> configurable d \<longrightarrow>
                   getOwnPropertyDescriptor (heap (w\<lparr>heap := h'\<rparr>)) (Ref b) toStringTag
                     = Dsc d)
              \<and> (configurable d \<longrightarrow>
                   (\<forall>ex. get h1 E' (Str ''exclude'') = Inr ex \<longrightarrow>
                      (excluded h1 ex (key_val toStringTag) = Inr True
                         \<and> Ref b \<noteq> Ref c \<longrightarrow>
                         getOwnPropertyDescriptor (heap (w\<lparr>heap := h'\<rparr>)) (Ref b)
                            toStringTag = Dsc d)
                    \<and> (excluded h1 ex (key_val toStringTag) = Inr False \<longrightarrow>
                         (\<exists>d'. getOwnPropertyDescriptor (heap (w\<lparr>heap := h'\<rparr>)) (Ref b)
                                  toStringTag = Dsc d'
                             \<and> lockrel False (key_val toStringTag) d d')))))"
    unfolding hw bc by (rule k)
  show ?thesis unfolding C(1) p(1)
    by (rule exI, rule exI, rule conjI, rule res, rule k')
qed

theorem restrict_type_tag_witness:
  "(\<exists>w'. restrict demo_world (Ref 8) (Ref 13) = Some (Inr (Ref 8), w')
       \<and> getOwnPropertyDescriptor (heap w') (Ref 9) toStringTag
            = Dsc (Data (StrV ''C'') False False False))
   \<and> (\<exists>w'. restrict demo_setter_name (Ref 8) (Ref 13) = Some (Inr (Ref 8), w')
       \<and> getOwnPropertyDescriptor (heap w') (Ref 9) toStringTag
            = Dsc (Data Undefined False False False))
   \<and> (\<exists>w'. restrict demo_tag (Ref 8) Undefined = Some (Inr (Ref 8), w')
       \<and> getOwnPropertyDescriptor (heap w') (Ref 9) toStringTag
            = Dsc (Data (StrV ''X'') False False False))
   \<and> (\<exists>w'. restrict demo_tag_excluded (Ref 8) (Ref 13) = Some (Inr (Ref 8), w')
       \<and> getOwnPropertyDescriptor (heap w') (Ref 9) toStringTag
            = Dsc (Data (StrV ''X'') True True True))"
proof -
  have first: "\<exists>w'. restrict demo_world (Ref 8) (Ref 13) = Some (Inr (Ref 8), w')
       \<and> getOwnPropertyDescriptor (heap w') (Ref 9) toStringTag
            = Dsc (Data (StrV ''C'') False False False)"
  proof -
    have a: "callable (heap demo_world) (Ref 8)"
      and b: "Ref 8 \<notin> set (restrictMap demo_world)"
      and c: "getOwnPropertyDescriptor (heap demo_world) (Ref 8) (Str ''prototype'')
                = Dsc (Data (Ref 9) False False False)"
      and o: "options (heap demo_world) (Ref 13) = (Ref 13, heap demo_world)"
      and n: "tag_value (heap demo_world) (Ref 8) (Ref 13) = Inr (StrV ''C'')"
      by code_simp+
    have "case obj_at (heap demo_world) (Ref 9) of
            Some ob \<Rightarrow> map_of (props ob) toStringTag = None | None \<Rightarrow> False"
      by code_simp
    then obtain pob where d: "obj_at (heap demo_world) (Ref 9) = Some pob"
      "map_of (props pob) toStringTag = None"
      by (auto split: option.split_asm)
    have ok: "case restrict demo_world (Ref 8) (Ref 13) of
                Some (Inr v, w') \<Rightarrow> True | _ \<Rightarrow> False"
      by code_simp
    from restrict_type_tag[OF a b c d(1) o] obtain r w' where
      r: "restrict demo_world (Ref 8) (Ref 13) = Some (r, w')"
      and k: "\<forall>v. r = Inr v \<longrightarrow> v = Ref 8
            \<and> (map_of (props pob) toStringTag = None \<longrightarrow>
                 (\<exists>n. tag_value (heap demo_world) (Ref 8) (Ref 13) = Inr n
                    \<and> getOwnPropertyDescriptor (heap w') (Ref 9) toStringTag
                         = Dsc (Data n False False False)))"
      by blast
    from ok r obtain v where v: "r = Inr v" by (cases r) auto
    with k d(2) n have "v = Ref 8"
      "getOwnPropertyDescriptor (heap w') (Ref 9) toStringTag
         = Dsc (Data (StrV ''C'') False False False)"
      by auto
    with r v show ?thesis by blast
  qed
  have second: "\<exists>w'. restrict demo_setter_name (Ref 8) (Ref 13) = Some (Inr (Ref 8), w')
       \<and> getOwnPropertyDescriptor (heap w') (Ref 9) toStringTag
            = Dsc (Data Undefined False False False)"
  proof -
    have a: "callable (heap demo_setter_name) (Ref 8)"
      and b: "Ref 8 \<notin> set (restrictMap demo_setter_name)"
      and c: "getOwnPropertyDescriptor (heap demo_setter_name) (Ref 8) (Str ''prototype'')
                = Dsc (Data (Ref 9) False False False)"
      and o: "options (heap demo_setter_name) (Ref 13) = (Ref 13, heap demo_setter_name)"
      and n: "tag_value (heap demo_setter_name) (Ref 8) (Ref 13) = Inr Undefined"
      by code_simp+
    have "case obj_at (heap demo_setter_name) (Ref 9) of
            Some ob \<Rightarrow> map_of (props ob) toStringTag = None | None \<Rightarrow> False"
      by code_simp
    then obtain pob where d: "obj_at (heap demo_setter_name) (Ref 9) = Some pob"
      "map_of (props pob) toStringTag = None"
      by (auto split: option.split_asm)
    have ok: "case restrict demo_setter_name (Ref 8) (Ref 13) of
                Some (Inr v, w') \<Rightarrow> True | _ \<Rightarrow> False"
      by code_simp
    from restrict_type_tag[OF a b c d(1) o] obtain r w' where
      r: "restrict demo_setter_name (Ref 8) (Ref 13) = Some (r, w')"
      and k: "\<forall>v. r = Inr v \<longrightarrow> v = Ref 8
            \<and> (map_of (props pob) toStringTag = None \<longrightarrow>
                 (\<exists>n. tag_value (heap demo_setter_name) (Ref 8) (Ref 13) = Inr n
                    \<and> getOwnPropertyDescriptor (heap w') (Ref 9) toStringTag
                         = Dsc (Data n False False False)))"
      by blast
    from ok r obtain v where v: "r = Inr v" by (cases r) auto
    with k d(2) n have "v = Ref 8"
      "getOwnPropertyDescriptor (heap w') (Ref 9) toStringTag
         = Dsc (Data Undefined False False False)"
      by auto
    with r v show ?thesis by blast
  qed
  have third: "\<exists>w'. restrict demo_tag (Ref 8) Undefined = Some (Inr (Ref 8), w')
       \<and> getOwnPropertyDescriptor (heap w') (Ref 9) toStringTag
            = Dsc (Data (StrV ''X'') False False False)"
  proof -
    let ?h1 = "heap demo_tag @ [Obj (empty_obj ObjectPrototype)]"
    have a: "callable (heap demo_tag) (Ref 8)"
      and b: "Ref 8 \<notin> set (restrictMap demo_tag)"
      and c: "getOwnPropertyDescriptor (heap demo_tag) (Ref 8) (Str ''prototype'')
                = Dsc (Data (Ref 9) False False False)"
      and o: "options (heap demo_tag) Undefined = (Ref 13, ?h1)"
      and g: "get ?h1 (Ref 13) (Str ''exclude'') = Inr Undefined"
      and e: "excluded ?h1 Undefined (key_val toStringTag) = Inr False"
      by code_simp+
    have "case obj_at (heap demo_tag) (Ref 9) of
            Some ob \<Rightarrow> map_of (props ob) toStringTag = Some (Data (StrV ''X'') True True True)
          | None \<Rightarrow> False"
      by code_simp
    then obtain pob where d: "obj_at (heap demo_tag) (Ref 9) = Some pob"
      "map_of (props pob) toStringTag = Some (Data (StrV ''X'') True True True)"
      by (auto split: option.split_asm)
    have ok: "case restrict demo_tag (Ref 8) Undefined of
                Some (Inr v, w') \<Rightarrow> True | _ \<Rightarrow> False"
      by code_simp
    from restrict_type_tag[OF a b c d(1) o] obtain r w' where
      r: "restrict demo_tag (Ref 8) Undefined = Some (r, w')"
      and k: "\<forall>v. r = Inr v \<longrightarrow> v = Ref 8
          \<and> (\<forall>d. map_of (props pob) toStringTag = Some d \<longrightarrow>
                (configurable d \<longrightarrow>
                   (\<forall>ex. get ?h1 (Ref 13) (Str ''exclude'') = Inr ex \<longrightarrow>
                      (excluded ?h1 ex (key_val toStringTag) = Inr False \<longrightarrow>
                         (\<exists>d'. getOwnPropertyDescriptor (heap w') (Ref 9) toStringTag = Dsc d'
                             \<and> lockrel False (key_val toStringTag) d d')))))"
      by blast
    from ok r obtain v where v: "r = Inr v" by (cases r) auto
    with k d(2) g e obtain d' where v8: "v = Ref 8"
      and l: "getOwnPropertyDescriptor (heap w') (Ref 9) toStringTag = Dsc d'"
        "lockrel False (key_val toStringTag) (Data (StrV ''X'') True True True) d'"
      by force
    from l(2) have "d' = Data (StrV ''X'') False False False"
      by (cases d') (auto simp: lockrel_def primitive_def)
    with r v v8 l(1) show ?thesis by blast
  qed
  have fourth: "\<exists>w'. restrict demo_tag_excluded (Ref 8) (Ref 13) = Some (Inr (Ref 8), w')
       \<and> getOwnPropertyDescriptor (heap w') (Ref 9) toStringTag
            = Dsc (Data (StrV ''X'') True True True)"
  proof -
    let ?h1 = "heap demo_tag_excluded"
    have a: "callable ?h1 (Ref 8)"
      and b: "Ref 8 \<notin> set (restrictMap demo_tag_excluded)"
      and c: "getOwnPropertyDescriptor ?h1 (Ref 8) (Str ''prototype'')
                = Dsc (Data (Ref 9) False False False)"
      and o: "options ?h1 (Ref 13) = (Ref 13, ?h1)"
      and g: "get ?h1 (Ref 13) (Str ''exclude'') = Inr (Ref 14)"
      and e: "excluded ?h1 (Ref 14) (key_val toStringTag) = Inr True"
      by code_simp+
    have "case obj_at ?h1 (Ref 9) of
            Some ob \<Rightarrow> map_of (props ob) toStringTag = Some (Data (StrV ''X'') True True True)
          | None \<Rightarrow> False"
      by code_simp
    then obtain pob where d: "obj_at ?h1 (Ref 9) = Some pob"
      "map_of (props pob) toStringTag = Some (Data (StrV ''X'') True True True)"
      by (auto split: option.split_asm)
    have ok: "case restrict demo_tag_excluded (Ref 8) (Ref 13) of
                Some (Inr v, w') \<Rightarrow> True | _ \<Rightarrow> False"
      by code_simp
    from restrict_type_tag[OF a b c d(1) o] obtain r w' where
      r: "restrict demo_tag_excluded (Ref 8) (Ref 13) = Some (r, w')"
      and k: "\<forall>v. r = Inr v \<longrightarrow> v = Ref 8
          \<and> (\<forall>d. map_of (props pob) toStringTag = Some d \<longrightarrow>
                (configurable d \<longrightarrow>
                   (\<forall>ex. get ?h1 (Ref 13) (Str ''exclude'') = Inr ex \<longrightarrow>
                      (excluded ?h1 ex (key_val toStringTag) = Inr True
                          \<and> Ref 9 \<noteq> Ref 8 \<longrightarrow>
                         getOwnPropertyDescriptor (heap w') (Ref 9) toStringTag = Dsc d))))"
      by blast
    from ok r obtain v where v: "r = Inr v" by (cases r) auto
    with k d(2) g e have "v = Ref 8"
      "getOwnPropertyDescriptor (heap w') (Ref 9) toStringTag
         = Dsc (Data (StrV ''X'') True True True)"
      by force+
    with r v show ?thesis by blast
  qed
  from first second third fourth show ?thesis by (intro conjI)
qed

end
